theory Spec2Isabelle
  imports Main "HOL-Library.AList" "HOL-Library.Word"
begin

section \<open>Strings of the host language\<close>

text \<open>
  A string of the program is a sequence of code units. The model uses \<open>string\<close>, one
  \<open>char\<close> per code unit, which covers the code units below 256. The white space that
  \<open>String.prototype.trim\<close> strips is, in that range: tab (9), line feed (10), vertical
  tab (11), form feed (12), carriage return (13), space (32) and no-break space (160).
\<close>

definition is_ws :: "char \<Rightarrow> bool" where
  "is_ws c = (of_char c \<in> {9::nat, 10, 11, 12, 13, 32, 160})"

definition trim :: "string \<Rightarrow> string" where
  "trim s = rev (dropWhile is_ws (rev (dropWhile is_ws s)))"

text \<open>
  \<open>s.split(sep)\<close> for a separator of one code unit (also \<open>s.split(/\n/)\<close>): the pieces
  between the occurrences of the separator, empty pieces included; the empty string gives
  one empty piece.
\<close>

fun split_on :: "char \<Rightarrow> string \<Rightarrow> string list" where
  "split_on c [] = [[]]"
| "split_on c (x # xs) =
     (if x = c then [] # split_on c xs
      else (case split_on c xs of
              [] \<Rightarrow> [[x]]
            | w # ws \<Rightarrow> (x # w) # ws))"

text \<open>\<open>Boolean(s)\<close> on a string: the empty string is falsy, every other string truthy.\<close>

definition truthy_str :: "string \<Rightarrow> bool" where
  "truthy_str s = (s \<noteq> [])"

definition newline :: char where
  "newline = CHR 0x0A"

definition comma :: char where
  "comma = CHR '',''"

section \<open>parseInvoiceNumbers (test.html)\<close>

text \<open>
  The body of the \<open>forEach\<close> callback: what one line appends to \<open>numbers\<close>.
\<close>

definition push_line :: "string list \<Rightarrow> string \<Rightarrow> string list" where
  "push_line numbers line =
     (if truthy_str line then
        (if comma \<in> set line
         then numbers @ filter truthy_str (map trim (split_on comma line))
         else numbers @ [line])
      else numbers)"

text \<open>
  \<open>parseInvoiceNumbers\<close>, with the text of the textarea as its argument: the input is
  trimmed, split at line feeds, every line trimmed, the lines folded into \<open>numbers\<close> by
  the callback, and the result filtered once more.
\<close>

definition parseInvoiceNumbers :: "string \<Rightarrow> string list" where
  "parseInvoiceNumbers raw =
     (let input = trim raw;
          lines = map trim (split_on newline input);
          numbers = foldl push_line [] lines
      in filter truthy_str numbers)"


section \<open>Values of the host language\<close>

text \<open>
  What \<open>response.json()\<close> can return: null, a boolean, a number, a string, an array or
  an object. The numbers of the model are the integers from \<open>-2^53\<close> to \<open>2^53 - 1\<close>,
  a signed word of 54 bits read by \<open>sint\<close>: each of them is a number of the host, which
  prints it with all its digits; and the two infinities that a numeral beyond the range of
  the host's numbers parses to (\<open>JInf True\<close> is \<open>Infinity\<close>, \<open>JInf False\<close> is
  \<open>-Infinity\<close>). A number with a fraction, an integer outside that range and the negative
  zero have no term in the model. The program does no arithmetic on payload numbers, it only
  tests them for truth and prints them. An object is the list of its own properties in the
  engine's property order, one entry per key; should a list repeat a key, the first entry is
  the property.
\<close>

datatype json =
    JNull
  | JBool bool
  | JNum "54 word"
  | JInf bool
  | JStr string
  | JArr "json list"
  | JObj "(string \<times> json) list"

text \<open>
  Exceptions, by the class the host or the program throws; handlers of the program read
  only the message.
\<close>

datatype exn =
    TypeError string
  | SyntaxError string
  | DOMException string
  | Error string

fun message :: "exn \<Rightarrow> string" where
  "message (TypeError m) = m"
| "message (SyntaxError m) = m"
| "message (DOMException m) = m"
| "message (Error m) = m"

definition digit_char :: "nat \<Rightarrow> char" where
  "digit_char d = char_of (48 + d)"

fun show_nat :: "nat \<Rightarrow> string" where
  "show_nat n =
     (if n < 10 then [digit_char n] else show_nat (n div 10) @ [digit_char (n mod 10)])"

declare show_nat.simps [simp del]

definition show_int :: "int \<Rightarrow> string" where
  "show_int i = (if i < 0 then CHR ''-'' # show_nat (nat (- i)) else show_nat (nat i))"

text \<open>\<open>parts.join(sep)\<close> on an array of strings.\<close>

fun join :: "string \<Rightarrow> string list \<Rightarrow> string" where
  "join sep [] = []"
| "join sep [x] = x"
| "join sep (x # y # ys) = x @ sep @ join sep (y # ys)"

text \<open>
  Reading a property \<open>v[k]\<close>, for the property names the program reads (\<open>results\<close>,
  \<open>status\<close>, \<open>error\<close>, \<open>data\<close>, \<open>invoice_number\<close> and the seven field names): on null
  the host throws a TypeError; an object gives its own property or \<open>undefined\<close>
  (\<open>None\<close>); every other value has none of these names.
\<close>

definition own_prop :: "json \<Rightarrow> string \<Rightarrow> json option" where
  "own_prop v k = (case v of JObj kvs \<Rightarrow> map_of kvs k | _ \<Rightarrow> None)"

definition cannot_read :: "string \<Rightarrow> string" where
  "cannot_read k =
     ''Cannot read properties of null (reading '' @ [CHR 0x27] @ k @ [CHR 0x27] @ '')''"

definition get_prop :: "json \<Rightarrow> string \<Rightarrow> exn + json option" where
  "get_prop v k =
     (case v of
        JNull \<Rightarrow> Inl (TypeError (cannot_read k))
      | _ \<Rightarrow> Inr (own_prop v k))"

text \<open>Truth of a value (\<open>!v\<close>, \<open>v ? a : b\<close>, \<open>v || d\<close>); \<open>None\<close> is \<open>undefined\<close>.\<close>

fun truthy :: "json option \<Rightarrow> bool" where
  "truthy None = False"
| "truthy (Some JNull) = False"
| "truthy (Some (JBool b)) = b"
| "truthy (Some (JNum n)) = (n \<noteq> 0)"
| "truthy (Some (JInf b)) = True"
| "truthy (Some (JStr s)) = (s \<noteq> [])"
| "truthy (Some (JArr xs)) = True"
| "truthy (Some (JObj kvs)) = True"

definition or_else :: "json option \<Rightarrow> json \<Rightarrow> json option" where
  "or_else v d = (if truthy v then v else Some d)"

text \<open>
  The text a template literal inserts for a value, or the exception of the conversion. An
  array is converted by \<open>join\<close>, which converts its elements in turn, null to the empty
  text. An object is converted by its \<open>toString\<close> method: the inherited one gives
  \<open>[object Object]\<close>; an own property \<open>toString\<close> hides it, and as no value of a
  payload is a function, the host then finds no method that gives a primitive value (the
  inherited \<open>valueOf\<close> returns the object itself) and throws a TypeError.
\<close>

definition no_primitive :: exn where
  "no_primitive = TypeError ''Cannot convert object to primitive value''"

fun toStr :: "json \<Rightarrow> exn + string"
  and toStrs :: "json list \<Rightarrow> exn + string list" where
  "toStr JNull = Inr ''null''"
| "toStr (JBool b) = Inr (if b then ''true'' else ''false'')"
| "toStr (JNum n) = Inr (show_int (sint n))"
| "toStr (JInf b) = Inr (if b then ''Infinity'' else ''-Infinity'')"
| "toStr (JStr s) = Inr s"
| "toStr (JArr xs) =
     (case toStrs xs of
        Inl e \<Rightarrow> Inl e
      | Inr ts \<Rightarrow> Inr (join '','' ts))"
| "toStr (JObj kvs) =
     (if map_of kvs ''toString'' = None then Inr ''[object Object]'' else Inl no_primitive)"
| "toStrs [] = Inr []"
| "toStrs (x # xs) =
     (case (if x = JNull then Inr [] else toStr x) of
        Inl e \<Rightarrow> Inl e
      | Inr t \<Rightarrow> (case toStrs xs of
                    Inl e \<Rightarrow> Inl e
                  | Inr ts \<Rightarrow> Inr (t # ts)))"

definition interp :: "json option \<Rightarrow> exn + string" where
  "interp v = (case v of None \<Rightarrow> Inr ''undefined'' | Some x \<Rightarrow> toStr x)"

fun is_array :: "json option \<Rightarrow> bool" where
  "is_array (Some (JArr xs)) = True"
| "is_array _ = False"

fun elems :: "json option \<Rightarrow> json list" where
  "elems (Some (JArr xs)) = xs"
| "elems _ = []"

subsection \<open>JSON.stringify\<close>

definition hex_char :: "nat \<Rightarrow> char" where
  "hex_char d = (if d < 10 then char_of (48 + d) else char_of (87 + d))"

definition dquote :: char where
  "dquote = CHR 0x22"

definition backslash :: char where
  "backslash = CHR 0x5C"

definition quote_char :: "char \<Rightarrow> string" where
  "quote_char c =
     (let n = (of_char c :: nat) in
      if n = 8 then [backslash, CHR ''b'']
      else if n = 9 then [backslash, CHR ''t'']
      else if n = 10 then [backslash, CHR ''n'']
      else if n = 12 then [backslash, CHR ''f'']
      else if n = 13 then [backslash, CHR ''r'']
      else if c = dquote then [backslash, dquote]
      else if c = backslash then [backslash, backslash]
      else if n < 32 then [backslash] @ ''u00'' @ [hex_char (n div 16), hex_char (n mod 16)]
      else [c])"

definition quote_json :: "string \<Rightarrow> string" where
  "quote_json s = [dquote] @ concat (map quote_char s) @ [dquote]"

text \<open>
  \<open>JSON.stringify(value, null, gap)\<close>, with the gap as a string (ten spaces at most) and
  the current indentation; the empty gap is the compact form \<open>JSON.stringify(value)\<close>.
\<close>

fun stringify :: "string \<Rightarrow> string \<Rightarrow> json \<Rightarrow> string" where
  "stringify gap indent JNull = ''null''"
| "stringify gap indent (JBool b) = (if b then ''true'' else ''false'')"
| "stringify gap indent (JNum n) = show_int (sint n)"
| "stringify gap indent (JInf b) = ''null''"
| "stringify gap indent (JStr s) = quote_json s"
| "stringify gap indent (JArr xs) =
     (let inner = indent @ gap;
          partial = map (stringify gap inner) xs
      in if partial = [] then ''[]''
         else if gap = [] then ''['' @ join '','' partial @ '']''
         else ''['' @ [newline] @ inner @ join ('','' @ [newline] @ inner) partial
              @ [newline] @ indent @ '']'')"
| "stringify gap indent (JObj kvs) =
     (let inner = indent @ gap;
          partial = map (\<lambda>(k, v). quote_json k @ '':'' @ (if gap = [] then [] else '' '')
                                   @ stringify gap inner v) kvs
      in if partial = [] then ''{}''
         else if gap = [] then ''{'' @ join '','' partial @ ''}''
         else ''{'' @ [newline] @ inner @ join ('','' @ [newline] @ inner) partial
              @ [newline] @ indent @ ''}'')"

subsection \<open>Object literals with a spread\<close>

text \<open>
  A key that is an array index (the canonical decimal text of a number below
  \<open>2^32 - 1\<close>) is listed before every other key, in ascending order; the other keys
  follow in the order of their creation.
\<close>

definition is_digit :: "char \<Rightarrow> bool" where
  "is_digit c = (48 \<le> (of_char c :: nat) \<and> (of_char c :: nat) \<le> 57)"

definition digits_val :: "string \<Rightarrow> int" where
  "digits_val k = foldl (\<lambda>a c. 10 * a + (of_char c - 48)) 0 k"

definition array_index :: "string \<Rightarrow> int option" where
  "array_index k =
     (if k \<noteq> [] \<and> list_all is_digit k \<and> (hd k \<noteq> CHR ''0'' \<or> k = ''0'')
         \<and> digits_val k < 4294967295
      then Some (digits_val k) else None)"

fun insert_index :: "int \<Rightarrow> string \<Rightarrow> json \<Rightarrow> (string \<times> json) list \<Rightarrow> (string \<times> json) list" where
  "insert_index i k v [] = [(k, v)]"
| "insert_index i k v ((k', v') # rest) =
     (case array_index k' of
        Some j \<Rightarrow> if j < i then (k', v') # insert_index i k v rest
                  else (k, v) # (k', v') # rest
      | None \<Rightarrow> (k, v) # (k', v') # rest)"

text \<open>
  Defining the property \<open>k\<close> on an object: an existing property keeps its place and
  takes the new value; a new one is put where the property order has it.
\<close>

definition put_prop :: "string \<Rightarrow> json \<Rightarrow> (string \<times> json) list \<Rightarrow> (string \<times> json) list" where
  "put_prop k v kvs =
     (if k \<in> fst ` set kvs then AList.update k v kvs
      else (case array_index k of
              Some i \<Rightarrow> insert_index i k v kvs
            | None \<Rightarrow> kvs @ [(k, v)]))"

text \<open>
  The own enumerable properties a spread \<open>...v\<close> copies: those of an object; the
  elements of an array and the code units of a string under their indices; none for null,
  a boolean or a number.
\<close>

fun own_props :: "json \<Rightarrow> (string \<times> json) list" where
  "own_props (JObj kvs) = AList.clearjunk kvs"
| "own_props (JArr xs) = zip (map show_nat [0..<length xs]) xs"
| "own_props (JStr s) = zip (map show_nat [0..<length s]) (map (\<lambda>c. JStr [c]) s)"
| "own_props _ = []"

definition spread :: "(string \<times> json) list \<Rightarrow> json \<Rightarrow> (string \<times> json) list" where
  "spread target v = foldl (\<lambda>obj (k, w). put_prop k w obj) target (own_props v)"


subsection \<open>JSON.parse\<close>

text \<open>
  Reading a JSON text back, as \<open>JSON.parse\<close> does: white space between tokens, the
  three literals, numerals, strings with their escapes, arrays, and objects whose properties
  are defined one by one, in the order of the text. A reading ends in one of three ways:
  \<open>Got\<close> with the value the host returns; \<open>Malformed\<close> when the host throws a
  SyntaxError; \<open>Beyond\<close> when the text holds something the model has no term for (a
  numeral with a fraction or an exponent, an integer outside the range of the model, the
  negative zero, an escape for a code unit of 256 or more), about which the model says
  nothing. The reader is the least solution of its equation: \<open>None\<close> would be a reading
  that does not return.
\<close>

datatype 'a reading = Got 'a | Malformed | Beyond

definition map_reading :: "('a \<Rightarrow> 'b) \<Rightarrow> 'a reading \<Rightarrow> 'b reading" where
  "map_reading f r = (case r of Got x \<Rightarrow> Got (f x) | Malformed \<Rightarrow> Malformed | Beyond \<Rightarrow> Beyond)"

definition json_ws :: "char \<Rightarrow> bool" where
  "json_ws c = (c = CHR '' '' \<or> c = CHR 0x09 \<or> c = CHR 0x0A \<or> c = CHR 0x0D)"

definition skip_ws :: "string \<Rightarrow> string" where
  "skip_ws s = dropWhile json_ws s"

definition hex_val :: "char \<Rightarrow> nat option" where
  "hex_val c =
     (let n = (of_char c :: nat) in
      if 48 \<le> n \<and> n \<le> 57 then Some (n - 48)
      else if 97 \<le> n \<and> n \<le> 102 then Some (n - 87)
      else if 65 \<le> n \<and> n \<le> 70 then Some (n - 55)
      else None)"

text \<open>The character an escape letter stands for.\<close>

definition unescape :: "char \<Rightarrow> char option" where
  "unescape e =
     (if e = dquote then Some dquote
      else if e = backslash then Some backslash
      else if e = CHR ''/'' then Some (CHR ''/'')
      else if e = CHR ''b'' then Some (CHR 0x08)
      else if e = CHR ''f'' then Some (CHR 0x0C)
      else if e = CHR ''n'' then Some (CHR 0x0A)
      else if e = CHR ''r'' then Some (CHR 0x0D)
      else if e = CHR ''t'' then Some (CHR 0x09)
      else None)"

text \<open>The escape by four hexadecimal digits.\<close>

definition hex4 :: "char \<Rightarrow> char \<Rightarrow> char \<Rightarrow> char \<Rightarrow> char reading" where
  "hex4 a b c d =
     (case (hex_val a, hex_val b, hex_val c, hex_val d) of
        (Some h3, Some h2, Some h1, Some h0) \<Rightarrow>
          if h3 = 0 \<and> h2 = 0 then Got (char_of (16 * h1 + h0)) else Beyond
      | _ \<Rightarrow> Malformed)"

text \<open>
  The rest of a string token after its opening quote: the characters up to the closing
  quote, escapes resolved, and the text after the token. A raw control character, an
  unknown escape and the end of the text inside the token are malformed.
\<close>

fun str_body :: "string \<Rightarrow> (string \<times> string) reading" where
  "str_body [] = Malformed"
| "str_body (c # cs) =
     (if c = dquote then Got ([], cs)
      else if c = backslash then
        (case cs of
           [] \<Rightarrow> Malformed
         | e # cs1 \<Rightarrow>
             if e = CHR ''u'' then
               (case cs1 of
                  a # b # c2 # d # cs2 \<Rightarrow>
                    (case hex4 a b c2 d of
                       Got ch \<Rightarrow> map_reading (\<lambda>(t, r). (ch # t, r)) (str_body cs2)
                     | Malformed \<Rightarrow> Malformed
                     | Beyond \<Rightarrow> Beyond)
                | _ \<Rightarrow> Malformed)
             else
               (case unescape e of
                  None \<Rightarrow> Malformed
                | Some ch \<Rightarrow> map_reading (\<lambda>(t, r). (ch # t, r)) (str_body cs1)))
      else if (of_char c :: nat) < 32 then Malformed
      else map_reading (\<lambda>(t, r). (c # t, r)) (str_body cs))"

text \<open>
  A number token: an optional minus sign and digits, with no leading zero before another
  digit. A token that goes on with a fraction or an exponent, an integer outside the range
  of the model and the negative zero are beyond the model.
\<close>

definition read_number :: "string \<Rightarrow> (json \<times> string) reading" where
  "read_number s =
     (let neg = (s \<noteq> [] \<and> hd s = CHR ''-'');
          s1 = (if neg then tl s else s);
          ds = takeWhile is_digit s1;
          rest = dropWhile is_digit s1;
          n = (if neg then - digits_val ds else digits_val ds)
      in if ds = [] \<or> (hd ds = CHR ''0'' \<and> tl ds \<noteq> []) then Malformed
         else if rest \<noteq> [] \<and> (hd rest = CHR ''.'' \<or> hd rest = CHR ''e'' \<or> hd rest = CHR ''E'')
         then Beyond
         else if (neg \<and> n = 0) \<or> n < - 9007199254740992 \<or> 9007199254740991 < n
         then Beyond
         else Got (JNum (word_of_int n), rest))"

text \<open>
  The reader proper, by the place it is at: before a value; inside an array, before an
  element, with the elements read so far; inside an object, before a member, with the
  object built so far. It gives the value read and the text after it.
\<close>

datatype mode = Value | Elems "json list" | Members "(string \<times> json) list"

partial_function (option) parse_at ::
  "mode \<Rightarrow> string \<Rightarrow> (json \<times> string) reading option" where
  "parse_at m s =
     (case m of
        Value \<Rightarrow>
          (case skip_ws s of
             [] \<Rightarrow> Some Malformed
           | c # cs \<Rightarrow>
               if c = CHR ''{'' then
                 (case skip_ws cs of
                    [] \<Rightarrow> Some Malformed
                  | c2 # r \<Rightarrow> if c2 = CHR ''}'' then Some (Got (JObj [], r))
                              else parse_at (Members []) cs)
               else if c = CHR ''['' then
                 (case skip_ws cs of
                    [] \<Rightarrow> Some Malformed
                  | c2 # r \<Rightarrow> if c2 = CHR '']'' then Some (Got (JArr [], r))
                              else parse_at (Elems []) cs)
               else if c = dquote then
                 Some (map_reading (\<lambda>(t, r). (JStr t, r)) (str_body cs))
               else if take 4 (c # cs) = ''null'' then Some (Got (JNull, drop 3 cs))
               else if take 4 (c # cs) = ''true'' then Some (Got (JBool True, drop 3 cs))
               else if take 5 (c # cs) = ''false'' then Some (Got (JBool False, drop 4 cs))
               else Some (read_number (c # cs)))
      | Elems acc \<Rightarrow>
          Option.bind (parse_at Value s)
            (\<lambda>got. case got of
                     Malformed \<Rightarrow> Some Malformed
                   | Beyond \<Rightarrow> Some Beyond
                   | Got (v, r) \<Rightarrow>
                       (case skip_ws r of
                          [] \<Rightarrow> Some Malformed
                        | c # r' \<Rightarrow>
                            if c = CHR '','' then parse_at (Elems (acc @ [v])) r'
                            else if c = CHR '']'' then Some (Got (JArr (acc @ [v]), r'))
                            else Some Malformed))
      | Members acc \<Rightarrow>
          (case skip_ws s of
             [] \<Rightarrow> Some Malformed
           | c # cs \<Rightarrow>
               if c = dquote then
                 (case str_body cs of
                    Malformed \<Rightarrow> Some Malformed
                  | Beyond \<Rightarrow> Some Beyond
                  | Got (k, r) \<Rightarrow>
                      (case skip_ws r of
                         [] \<Rightarrow> Some Malformed
                       | c2 # r2 \<Rightarrow>
                           if c2 = CHR '':'' then
                             Option.bind (parse_at Value r2)
                               (\<lambda>got. case got of
                                        Malformed \<Rightarrow> Some Malformed
                                      | Beyond \<Rightarrow> Some Beyond
                                      | Got (v, r3) \<Rightarrow>
                                          (case skip_ws r3 of
                                             [] \<Rightarrow> Some Malformed
                                           | c3 # r4 \<Rightarrow>
                                               if c3 = CHR '','' then
                                                 parse_at (Members (put_prop k v acc)) r4
                                               else if c3 = CHR ''}'' then
                                                 Some (Got (JObj (put_prop k v acc), r4))
                                               else Some Malformed))
                           else Some Malformed))
               else Some Malformed))"

declare parse_at.simps [code]

text \<open>\<open>JSON.parse(text)\<close>: one value, with nothing but white space after it.\<close>

definition JSON_parse :: "string \<Rightarrow> json reading option" where
  "JSON_parse s =
     (case parse_at Value s of
        None \<Rightarrow> None
      | Some Malformed \<Rightarrow> Some Malformed
      | Some Beyond \<Rightarrow> Some Beyond
      | Some (Got (v, r)) \<Rightarrow> Some (if skip_ws r = [] then Got v else Malformed))"


section \<open>The page and the network\<close>

text \<open>
  A request as \<open>fetch\<close> receives it, and what \<open>fetch\<close> gives back: a rejection (no
  connection, or the \<open>AbortSignal.timeout\<close> firing) or a response with its status, its
  body text and what \<open>response.json()\<close> makes of the body. The network is a function of
  the request; every call of \<open>fetch\<close> is logged.
\<close>

record request =
  http_method :: string
  url :: string
  payload :: "string option"

record response =
  status :: nat
  bodyText :: string
  bodyJson :: "exn + json"

definition ok :: "response \<Rightarrow> bool" where
  "ok r = (200 \<le> status r \<and> status r \<le> 299)"

datatype fetch_outcome = Rejected exn | Resolved response

record download =
  filename :: string
  mime :: string
  content :: string

text \<open>One entry of the rendered invoice list: header number, badge, detail rows.\<close>

record item =
  number :: string
  success :: bool
  details :: "(string \<times> string) list"

text \<open>
  The state of test.html: the two inputs, the global \<open>currentResults\<close> (\<open>None\<close> is
  null), the elements the script writes, the alerts shown, the calls of \<open>fetch\<close> and the
  files handed to the browser.
\<close>

record page =
  invoiceNumbersInput :: string
  apiUrlInput :: string
  currentResults :: "json option"
  apiErrorText :: string
  apiErrorShown :: bool
  totalCount :: int
  successCount :: int
  errorCount :: int
  invoiceList :: "item list"
  resultsShown :: bool
  spinnerShown :: bool
  checkDisabled :: bool
  connected :: bool
  connectionStatus :: string
  alerts :: "string list"
  requests :: "request list"
  downloads :: "download list"

section \<open>testConnection (test.html)\<close>




section \<open>displayResults (test.html)\<close>

text \<open>\<open>xs.filter(f)\<close> and \<open>xs.map(f)\<close> with a callback that may throw.\<close>

fun filter_thr :: "('a \<Rightarrow> exn + bool) \<Rightarrow> 'a list \<Rightarrow> exn + 'a list" where
  "filter_thr f [] = Inr []"
| "filter_thr f (x # xs) =
     (case f x of
        Inl e \<Rightarrow> Inl e
      | Inr b \<Rightarrow> (case filter_thr f xs of
                    Inl e \<Rightarrow> Inl e
                  | Inr ys \<Rightarrow> Inr (if b then x # ys else ys)))"

fun map_thr :: "('a \<Rightarrow> exn + 'b) \<Rightarrow> 'a list \<Rightarrow> exn + 'b list" where
  "map_thr f [] = Inr []"
| "map_thr f (x # xs) =
     (case f x of
        Inl e \<Rightarrow> Inl e
      | Inr y \<Rightarrow> (case map_thr f xs of
                    Inl e \<Rightarrow> Inl e
                  | Inr ys \<Rightarrow> Inr (y # ys)))"

text \<open>\<open>r.status === 'success'\<close>\<close>

definition status_success :: "json \<Rightarrow> exn + bool" where
  "status_success r =
     (case get_prop r ''status'' of
        Inl e \<Rightarrow> Inl e
      | Inr v \<Rightarrow> Inr (v = Some (JStr ''success'')))"

definition field_names :: "string list" where
  "field_names =
     [''Control Unit Invoice Number'', ''Trader System Invoice No'', ''Invoice Date'',
      ''Total Taxable Amount'', ''Total Tax Amount'', ''Total Invoice Amount'',
      ''Supplier Name'']"

text \<open>One row of the details: the label and the text of the value.\<close>

definition detail_row :: "string \<Rightarrow> json option \<Rightarrow> exn + string \<times> string" where
  "detail_row label v = (case interp v of Inl e \<Rightarrow> Inl e | Inr t \<Rightarrow> Inr (label, t))"

text \<open>
  The body of the \<open>forEach\<close> callback that renders one result: the status is read, the
  header is written with the invoice number, then the details; the item is appended last.
\<close>

definition render_item :: "json \<Rightarrow> exn + item" where
  "render_item result =
     (case status_success result of
        Inl e \<Rightarrow> Inl e
      | Inr isSuccess \<Rightarrow>
          (case interp (own_prop result ''invoice_number'') of
             Inl e \<Rightarrow> Inl e
           | Inr num \<Rightarrow>
               let dat = own_prop result ''data'';
                   err = own_prop result ''error''
               in case (if isSuccess \<and> truthy dat
                        then map_thr (\<lambda>key. detail_row key (or_else (own_prop (the dat) key)
                                                                     (JStr ''N/A'')))
                               field_names
                        else if truthy err
                        then (case detail_row ''Error'' err of
                                Inl e \<Rightarrow> Inl e
                              | Inr row \<Rightarrow> Inr [row])
                        else Inr []) of
                    Inl e \<Rightarrow> Inl e
                  | Inr rows \<Rightarrow> Inr \<lparr>number = num, success = isSuccess, details = rows\<rparr>))"

text \<open>
  \<open>results.forEach(\<dots>)\<close> over the rendering callback, with the items appended so
  far: the exception that ends the loop, if any, and the items in the list.
\<close>

fun render_each :: "json list \<Rightarrow> item list \<Rightarrow> exn option \<times> item list" where
  "render_each [] shown = (None, shown)"
| "render_each (r # rs) shown =
     (case render_item r of
        Inl e \<Rightarrow> (Some e, shown)
      | Inr it \<Rightarrow> render_each rs (shown @ [it]))"

text \<open>
  \<open>displayResults(data)\<close>: the page after the call, and the exception when the call
  throws (the writes made before the throw stay).
\<close>

definition displayResults :: "page \<Rightarrow> json \<Rightarrow> exn option \<times> page" where
  "displayResults st data =
     (let st1 = st\<lparr>invoiceList := []\<rparr> in
      case get_prop data ''results'' of
        Inl e \<Rightarrow> (Some e, st1)
      | Inr res \<Rightarrow>
          if \<not> truthy res \<or> \<not> is_array res
          then (None, st1\<lparr>apiErrorText := ''Invalid response format from API'',
                          apiErrorShown := True\<rparr>)
          else
            let results = elems res;
                st2 = st1\<lparr>totalCount := int (length results)\<rparr>
            in case filter_thr status_success results of
                 Inl e \<Rightarrow> (Some e, st2)
               | Inr hits \<Rightarrow>
                   let successful = int (length hits);
                       st3 = st2\<lparr>successCount := successful,
                                 errorCount := int (length results) - successful\<rparr>
                   in case render_each results [] of
                        (Some e, shown) \<Rightarrow> (Some e, st3\<lparr>invoiceList := shown\<rparr>)
                      | (None, shown) \<Rightarrow>
                          (None, st3\<lparr>invoiceList := shown, resultsShown := True\<rparr>))"

section \<open>checkInvoices (test.html)\<close>

definition local_fields :: "string \<Rightarrow> string \<Rightarrow> string list \<Rightarrow> (string \<times> json) list" where
  "local_fields now apiUrl invoiceNumbers =
     [(''timestamp'', JStr now),
      (''apiUrl'', JStr apiUrl),
      (''invoices_requested'', JArr (map JStr invoiceNumbers))]"

definition batch_request :: "string \<Rightarrow> string list \<Rightarrow> request" where
  "batch_request apiUrl invoiceNumbers =
     \<lparr>http_method = ''POST'', url = apiUrl,
      payload = Some (stringify [] []
                        (JObj [(''invoice_numbers'', JArr (map JStr invoiceNumbers))]))\<rparr>"

text \<open>
  The \<open>try\<close> block: the exception it throws, if any, and the page as the block leaves
  it. \<open>now\<close> is what \<open>new Date().toISOString()\<close> returns.
\<close>

definition check_try ::
  "(request \<Rightarrow> fetch_outcome) \<Rightarrow> string \<Rightarrow> string \<Rightarrow> string list \<Rightarrow> page
     \<Rightarrow> exn option \<times> page" where
  "check_try net now apiUrl invoiceNumbers st =
     (let req = batch_request apiUrl invoiceNumbers;
          st1 = st\<lparr>requests := requests st @ [req]\<rparr>
      in case net req of
           Rejected e \<Rightarrow> (Some e, st1)
         | Resolved r \<Rightarrow>
             if \<not> ok r
             then (Some (Error (''API returned status '' @ show_nat (status r) @ '': ''
                                @ bodyText r)), st1)
             else (case bodyJson r of
                     Inl e \<Rightarrow> (Some e, st1)
                   | Inr data \<Rightarrow>
                       displayResults
                         (st1\<lparr>currentResults :=
                                 Some (JObj (spread (local_fields now apiUrl invoiceNumbers)
                                               data))\<rparr>)
                         data))"

definition checkInvoices :: "(request \<Rightarrow> fetch_outcome) \<Rightarrow> string \<Rightarrow> page \<Rightarrow> page" where
  "checkInvoices net now st =
     (let invoiceNumbers = parseInvoiceNumbers (invoiceNumbersInput st) in
      if invoiceNumbers = []
      then st\<lparr>alerts := alerts st @ [''Please enter at least one invoice number'']\<rparr>
      else
        let apiUrl = trim (apiUrlInput st) in
        if apiUrl = []
        then st\<lparr>alerts := alerts st @ [''Please enter the API URL'']\<rparr>
        else
          let st1 = st\<lparr>spinnerShown := True, checkDisabled := True,
                        apiErrorShown := False\<rparr>;
              (thrown, st2) = check_try net now apiUrl invoiceNumbers st1;
              st3 = (case thrown of
                       None \<Rightarrow> st2
                     | Some error \<Rightarrow>
                         st2\<lparr>apiErrorText := ''Error: '' @ message error,
                             apiErrorShown := True\<rparr>)
          in st3\<lparr>spinnerShown := False, checkDisabled := False\<rparr>)"

section \<open>exportJSON and exportCSV (test.html)\<close>

text \<open>\<open>stamp.replace(/[:.]/g, '-')\<close>\<close>

definition file_stamp :: "string \<Rightarrow> string" where
  "file_stamp stamp = map (\<lambda>c. if c = CHR '':'' \<or> c = CHR ''.'' then CHR ''-'' else c) stamp"

definition exportJSON :: "string \<Rightarrow> page \<Rightarrow> page" where
  "exportJSON now st =
     (case currentResults st of
        None \<Rightarrow> st\<lparr>alerts := alerts st @ [''No results to export'']\<rparr>
      | Some cur \<Rightarrow>
          st\<lparr>downloads := downloads st @
                [\<lparr>filename = ''kra_invoice_results_'' @ file_stamp now @ ''.json'',
                  mime = ''application/json'',
                  content = stringify ''  '' [] cur\<rparr>]\<rparr>)"

definition columns :: "string list" where
  "columns =
     [''Invoice Number'', ''Status'', ''Error'', ''Control Unit Invoice Number'',
      ''Trader System Invoice No'', ''Invoice Date'', ''Total Taxable Amount'',
      ''Total Tax Amount'', ''Total Invoice Amount'', ''Supplier Name'']"

text \<open>\<open>result.data ? (result.data[key] || '') : ''\<close>\<close>

definition data_field :: "json \<Rightarrow> string \<Rightarrow> json option" where
  "data_field result key =
     (let dat = own_prop result ''data''
      in if truthy dat then or_else (own_prop (the dat) key) (JStr []) else Some (JStr []))"

definition apostrophe :: char where
  "apostrophe = CHR 0x27"

text \<open>A template literal with one value between two fixed texts.\<close>

definition cell :: "string \<Rightarrow> json option \<Rightarrow> string \<Rightarrow> exn + string" where
  "cell before v after =
     (case interp v of Inl e \<Rightarrow> Inl e | Inr t \<Rightarrow> Inr (before @ t @ after))"

text \<open>
  The array \<open>row\<close> that the \<open>forEach\<close> callback builds for one result; its ten
  template literals are evaluated in turn.
\<close>

definition csv_row :: "json \<Rightarrow> exn + string list" where
  "csv_row result =
     (case get_prop result ''invoice_number'' of
        Inl e \<Rightarrow> Inl e
      | Inr num \<Rightarrow>
          map_thr (\<lambda>c. c)
            [cell [dquote, apostrophe] num [dquote],
             cell [dquote] (own_prop result ''status'') [dquote],
             cell [dquote] (or_else (own_prop result ''error'') (JStr [])) [dquote],
             cell [apostrophe] (data_field result ''Control Unit Invoice Number'') [],
             cell [dquote] (data_field result ''Trader System Invoice No'') [dquote],
             cell [dquote] (data_field result ''Invoice Date'') [dquote],
             cell [dquote] (data_field result ''Total Taxable Amount'') [dquote],
             cell [dquote] (data_field result ''Total Tax Amount'') [dquote],
             cell [dquote] (data_field result ''Total Invoice Amount'') [dquote],
             cell [dquote] (data_field result ''Supplier Name'') [dquote]])"

definition csv_content :: "json list \<Rightarrow> exn + string" where
  "csv_content results =
     (case map_thr csv_row results of
        Inl e \<Rightarrow> Inl e
      | Inr rows \<Rightarrow>
          Inr (join '','' columns @ [newline]
               @ concat (map (\<lambda>row. join '','' row @ [newline]) rows)))"

definition exportCSV :: "string \<Rightarrow> page \<Rightarrow> exn option \<times> page" where
  "exportCSV now st =
     (case currentResults st of
        None \<Rightarrow> (None, st\<lparr>alerts := alerts st @ [''No results to export'']\<rparr>)
      | Some cur \<Rightarrow>
          (case get_prop cur ''results'' of
             Inl e \<Rightarrow> (Some e, st)
           | Inr res \<Rightarrow>
               if \<not> truthy res
               then (None, st\<lparr>alerts := alerts st @ [''No results to export'']\<rparr>)
               else if \<not> is_array res
               then (Some (TypeError ''results.forEach is not a function''), st)
               else (case csv_content (elems res) of
                       Inl e \<Rightarrow> (Some e, st)
                     | Inr csv \<Rightarrow>
                         (None,
                          st\<lparr>downloads := downloads st @
                                [\<lparr>filename = ''kra_invoice_results_'' @ file_stamp now
                                              @ ''.csv'',
                                  mime = ''text/csv'',
                                  content = csv\<rparr>]\<rparr>))))"


section \<open>checkInvoice (check\_invoice.js)\<close>

definition API_URL :: string where
  "API_URL = ''https://kra-invoice-checker-production.up.railway.app/invoices/details''"

definition single_request :: "string \<Rightarrow> request" where
  "single_request invoiceNumber =
     \<lparr>http_method = ''POST'', url = API_URL,
      payload = Some (stringify [] []
                        (JObj [(''invoice_numbers'', JArr [JStr (trim invoiceNumber)])]))\<rparr>"

text \<open>
  \<open>v > 0\<close> for the value of a \<open>length\<close> property. Comparing a string or an array
  with a number converts text to a floating-point number first; these two cases are left
  outside the model (\<open>None\<close>). An object is converted to a primitive value first, which
  throws when a property \<open>toString\<close> of its own hides the inherited method, and is
  otherwise a text that is no number.
\<close>

fun gt_zero :: "json option \<Rightarrow> (exn + bool) option" where
  "gt_zero None = Some (Inr False)"
| "gt_zero (Some JNull) = Some (Inr False)"
| "gt_zero (Some (JBool b)) = Some (Inr b)"
| "gt_zero (Some (JNum n)) = Some (Inr (0 < sint n))"
| "gt_zero (Some (JInf b)) = Some (Inr b)"
| "gt_zero (Some (JStr s)) = None"
| "gt_zero (Some (JArr xs)) = None"
| "gt_zero (Some (JObj kvs)) =
     (if map_of kvs ''toString'' = None then Some (Inr False) else Some (Inl no_primitive))"

text \<open>
  \<open>if (data.results && data.results.length > 0) return data.results[0]; else throw
  \<dots>\<close>: the value returned (\<open>undefined\<close> is \<open>None\<close>) or the exception; the
  outer \<open>None\<close> is a payload outside the model.
\<close>

definition no_results :: exn where
  "no_results = Error ''No results returned from API''"

definition first_result :: "json \<Rightarrow> (exn + json option) option" where
  "first_result data =
     (case get_prop data ''results'' of
        Inl e \<Rightarrow> Some (Inl e)
      | Inr res \<Rightarrow>
          if \<not> truthy res then Some (Inl no_results)
          else (case res of
                  Some (JArr xs) \<Rightarrow>
                    (case xs of [] \<Rightarrow> Some (Inl no_results) | x # _ \<Rightarrow> Some (Inr (Some x)))
                | Some (JStr s) \<Rightarrow>
                    (case s of [] \<Rightarrow> Some (Inl no_results) | c # _ \<Rightarrow> Some (Inr (Some (JStr [c]))))
                | Some (JObj kvs) \<Rightarrow>
                    (case gt_zero (map_of kvs ''length'') of
                       None \<Rightarrow> None
                     | Some (Inl e) \<Rightarrow> Some (Inl e)
                     | Some (Inr True) \<Rightarrow> Some (Inr (map_of kvs ''0''))
                     | Some (Inr False) \<Rightarrow> Some (Inl no_results))
                | _ \<Rightarrow> Some (Inl no_results)))"

text \<open>
  \<open>checkInvoice(invoiceNumber)\<close> of the command-line script, with the log of requests
  passed through: the value the promise resolves to.
\<close>

definition checkInvoice ::
  "(request \<Rightarrow> fetch_outcome) \<Rightarrow> string \<Rightarrow> request list
     \<Rightarrow> json option option \<times> request list" where
  "checkInvoice net invoiceNumber log =
     (let req = single_request invoiceNumber;
          attempt =
            (case net req of
               Rejected e \<Rightarrow> Some (Inl e)
             | Resolved r \<Rightarrow>
                 if \<not> ok r
                 then Some (Inl (Error (''API error ('' @ show_nat (status r) @ ''): ''
                                        @ bodyText r)))
                 else (case bodyJson r of
                         Inl e \<Rightarrow> Some (Inl e)
                       | Inr data \<Rightarrow> first_result data))
      in (case attempt of
            None \<Rightarrow> None
          | Some (Inr res) \<Rightarrow> Some res
          | Some (Inl error) \<Rightarrow>
              Some (Some (JObj [(''status'', JStr ''error''),
                                (''error'', JStr (message error))])),
          log @ [req]))"

section \<open>The specification's wording, for comparison\<close>

text \<open>
  The parser as the specification words it: split on line feeds, trim every line, drop the
  empty ones, split a line that has a comma on commas, trim the pieces, drop the empty ones,
  flatten.
\<close>

definition parse_spec :: "string \<Rightarrow> string list" where
  "parse_spec raw =
     concat (map (\<lambda>l. if comma \<in> set l
                       then filter (\<lambda>p. p \<noteq> []) (map trim (split_on comma l))
                       else [l])
               (filter (\<lambda>l. l \<noteq> []) (map trim (split_on newline raw))))"

text \<open>
  The quoting discipline of the specification for one cell of the delimited form: the value
  between quote characters, every quote character inside it doubled.
\<close>

definition csv_quote :: "string \<Rightarrow> string" where
  "csv_quote v = [dquote] @ concat (map (\<lambda>c. if c = dquote then [dquote, dquote] else [c]) v)
                 @ [dquote]"

section \<open>Auxiliary notions of the proofs\<close>

text \<open>What one line contributes to \<open>numbers\<close>.\<close>

definition line_tokens :: "string \<Rightarrow> string list" where
  "line_tokens line =
     (if truthy_str line then
        (if comma \<in> set line
         then filter truthy_str (map trim (split_on comma line))
         else [line])
      else [])"

text \<open>The pieces of a text between line feeds and commas.\<close>

definition pieces :: "string \<Rightarrow> string list" where
  "pieces s = concat (map (split_on comma) (split_on newline s))"

text \<open>
  A token: not empty, free of separators, with no white space at either end. An input is
  assembled from tokens, each followed by a separator of its own.
\<close>

definition is_token :: "string \<Rightarrow> bool" where
  "is_token t = (t \<noteq> [] \<and> newline \<notin> set t \<and> comma \<notin> set t \<and> trim t = t)"

definition is_sep :: "char \<Rightarrow> bool" where
  "is_sep c = (c = newline \<or> c = comma)"

definition assemble :: "(string \<times> char) list \<Rightarrow> string" where
  "assemble ps = concat (map (\<lambda>(t, c). t @ [c]) ps)"

text \<open>A result that counts as a success in the summary.\<close>

definition is_success :: "json \<Rightarrow> bool" where
  "is_success r = (own_prop r ''status'' = Some (JStr ''success''))"

text \<open>
  A value that a template literal can print: an object with no property \<open>toString\<close> of
  its own, an array whose elements can all be printed, or any other value. \<open>undefined\<close>
  can be printed too.
\<close>

fun prints :: "json \<Rightarrow> bool" where
  "prints (JArr xs) = list_all prints xs"
| "prints (JObj kvs) = (map_of kvs ''toString'' = None)"
| "prints _ = True"

definition prints_opt :: "json option \<Rightarrow> bool" where
  "prints_opt v = (case v of None \<Rightarrow> True | Some x \<Rightarrow> prints x)"

text \<open>The text printed for a value that can be printed (the empty text for any other).\<close>

definition text_of :: "json option \<Rightarrow> string" where
  "text_of v = (case interp v of Inl e \<Rightarrow> [] | Inr t \<Rightarrow> t)"

text \<open>
  The ten values that a row of the delimited form prints for a result, by column, and the
  results for which all ten can be printed; the cells of the row that is built.
\<close>

definition cell_values :: "json \<Rightarrow> json option list" where
  "cell_values result =
     [own_prop result ''invoice_number'', own_prop result ''status'',
      or_else (own_prop result ''error'') (JStr [])]
     @ map (data_field result) (drop 3 columns)"

definition row_prints :: "json \<Rightarrow> bool" where
  "row_prints result = (result \<noteq> JNull \<and> list_all prints_opt (cell_values result))"

definition row_cells :: "json \<Rightarrow> string list" where
  "row_cells result = (case csv_row result of Inl e \<Rightarrow> [] | Inr cells \<Rightarrow> cells)"

text \<open>What may follow a value in a text: nothing, white space, a comma or a closing bracket.\<close>

definition follow :: "string \<Rightarrow> bool" where
  "follow rest =
     (case rest of
        [] \<Rightarrow> True
      | c # _ \<Rightarrow> json_ws c \<or> c = CHR '','' \<or> c = CHR '']'' \<or> c = CHR ''}'')"

text \<open>A value with no infinite number inside.\<close>

fun finite_json :: "json \<Rightarrow> bool" where
  "finite_json (JInf b) = False"
| "finite_json (JArr xs) = list_all finite_json xs"
| "finite_json (JObj kvs) = list_all (\<lambda>p. finite_json (snd p)) kvs"
| "finite_json _ = True"

text \<open>
  The property order of the engine: array indices first, ascending, then the other keys,
  each once. A value is in order when every object inside lists its keys so.
\<close>

definition key_before :: "string \<Rightarrow> string \<Rightarrow> bool" where
  "key_before k1 k2 =
     (case array_index k1 of
        Some i \<Rightarrow> (case array_index k2 of Some j \<Rightarrow> i < j | None \<Rightarrow> True)
      | None \<Rightarrow> (case array_index k2 of Some j \<Rightarrow> False | None \<Rightarrow> k1 \<noteq> k2))"

fun in_order :: "json \<Rightarrow> bool" where
  "in_order (JArr xs) = list_all in_order xs"
| "in_order (JObj kvs) =
     (sorted_wrt key_before (map fst kvs) \<and> list_all (\<lambda>p. in_order (snd p)) kvs)"
| "in_order _ = True"

text \<open>A page before any run, with the two inputs given.\<close>

definition fresh_page :: "string \<Rightarrow> string \<Rightarrow> page" where
  "fresh_page numbers apiUrl =
     \<lparr>invoiceNumbersInput = numbers, apiUrlInput = apiUrl, currentResults = None,
      apiErrorText = [], apiErrorShown = False, totalCount = 0, successCount = 0,
      errorCount = 0, invoiceList = [], resultsShown = False, spinnerShown = False,
      checkDisabled = False, connected = False, connectionStatus = [], alerts = [],
      requests = [], downloads = []\<rparr>"

text \<open>A network that answers every request with the given status, text and payload.\<close>

definition answering :: "nat \<Rightarrow> string \<Rightarrow> exn + json \<Rightarrow> request \<Rightarrow> fetch_outcome" where
  "answering code txt parsed req = Resolved \<lparr>status = code, bodyText = txt, bodyJson = parsed\<rparr>"

section \<open>Sample inputs\<close>

text \<open>
  The local endpoint test.html offers, a time stamp, a page with one invoice number typed
  in, and six payloads: one with two successes and one error, one that carries a
  \<open>timestamp\<close> of its own, one result whose supplier name holds a quote character
  and whose control unit number holds a comma (and the page after a run that received
  it), one with a number beyond the range of the host's numbers, one with numbers in its
  result, and one whose second result is null.
\<close>

definition LOCAL_API_URL :: string where
  "LOCAL_API_URL = ''http://127.0.0.1:8000/invoices/details''"

definition sample_stamp :: string where
  "sample_stamp = ''2025-01-01T00:00:00.000Z''"

definition sample_page :: page where
  "sample_page = fresh_page ''INV1'' LOCAL_API_URL"

definition three_results :: json where
  "three_results =
     JObj [(''results'',
            JArr [JObj [(''invoice_number'', JStr ''A''), (''status'', JStr ''success''),
                        (''data'', JObj [(''Supplier Name'', JStr ''Acme'')])],
                  JObj [(''invoice_number'', JStr ''B''), (''status'', JStr ''success''),
                        (''data'', JObj [(''Supplier Name'', JStr ''Bolt'')])],
                  JObj [(''invoice_number'', JStr ''C''), (''status'', JStr ''error''),
                        (''error'', JStr ''Invoice not found'')]])]"

definition overriding_payload :: json where
  "overriding_payload = JObj [(''timestamp'', JStr ''1999-12-31''), (''results'', JArr [])]"

definition quoted_supplier :: json where
  "quoted_supplier =
     JObj [(''invoice_number'', JStr ''INV1''),
           (''status'', JStr ''success''),
           (''data'', JObj [(''Control Unit Invoice Number'', JStr ''a,b''),
                            (''Supplier Name'', JStr (''A'' @ [dquote] @ ''B''))])]"



definition exported_page :: page where
  "exported_page =
     checkInvoices (answering 200 [] (Inr (JObj [(''results'', JArr [quoted_supplier])])))
       sample_stamp sample_page"

definition null_element_payload :: json where
  "null_element_payload =
     JObj [(''results'', JArr [JObj [(''invoice_number'', JStr ''A''),
                                    (''status'', JStr ''success'')],
                              JNull])]"

section \<open>Properties of the parser\<close>

lemma truthy_str_fun: "truthy_str = (\<lambda>s. s \<noteq> [])"
  by (simp add: fun_eq_iff truthy_str_def)

lemma split_on_nonempty [simp]: "split_on c s \<noteq> []"
  by (induction s) (auto split: list.splits)

lemma split_on_absent: "c \<notin> set s \<Longrightarrow> split_on c s = [s]"
  by (induction s) auto

lemma trim_Nil [simp]: "trim [] = []"
  by (simp add: trim_def)

lemma trim_ws_Cons: "is_ws x \<Longrightarrow> trim (x # w) = trim w"
  by (simp add: trim_def)

lemma trim_ws_snoc: "is_ws x \<Longrightarrow> trim (w @ [x]) = trim w"
proof (cases "\<forall>y\<in>set w. is_ws y")
  case True
  assume "is_ws x"
  with True have a: "dropWhile is_ws (w @ [x]) = []" and b: "dropWhile is_ws w = []"
    by simp_all
  show ?thesis unfolding trim_def a b by simp
next
  case False
  assume "is_ws x"
  with False show ?thesis by (auto simp add: trim_def dropWhile_append)
qed

lemma dropWhile_rev_stable:
  "a = [] \<or> \<not> is_ws (hd a) \<Longrightarrow>
   dropWhile is_ws (rev (dropWhile is_ws (rev a))) = rev (dropWhile is_ws (rev a))"
proof (induction a rule: rev_induct)
  case Nil
  then show ?case by simp
next
  case (snoc x b)
  show ?case
  proof (cases "is_ws x")
    case True
    with snoc.prems have "b \<noteq> []" by auto
    with snoc True show ?thesis by simp
  next
    case False
    with snoc.prems show ?thesis by (cases b) auto
  qed
qed

lemma trim_idem [simp]: "trim (trim s) = trim s"
proof -
  let ?a = "dropWhile is_ws s"
  have "?a = [] \<or> \<not> is_ws (hd ?a)"
    by (metis hd_dropWhile)
  then have "dropWhile is_ws (rev (dropWhile is_ws (rev ?a))) = rev (dropWhile is_ws (rev ?a))"
    by (rule dropWhile_rev_stable)
  then show ?thesis by (simp add: trim_def)
qed

lemma push_line_eq: "push_line numbers line = numbers @ line_tokens line"
  by (simp add: push_line_def line_tokens_def)

lemma foldl_push_line: "foldl push_line acc ls = acc @ concat (map line_tokens ls)"
  by (induction ls arbitrary: acc) (simp_all add: push_line_eq)

lemma keep_drop_prefix:
  "filter truthy_str (map trim (split_on c (dropWhile is_ws s))) =
   filter truthy_str (map trim (split_on c s))"
proof (induction s)
  case Nil
  then show ?case by simp
next
  case (Cons x xs)
  show ?case
  proof (cases "is_ws x")
    case False
    then show ?thesis by simp
  next
    case True
    obtain w ws where sp: "split_on c xs = w # ws"
      by (cases "split_on c xs") simp_all
    show ?thesis using True Cons.IH sp
      by (simp add: trim_ws_Cons truthy_str_def)
  qed
qed

lemma split_on_snoc:
  "split_on c (s @ [x]) =
     (if x = c then split_on c s @ [[]]
      else butlast (split_on c s) @ [last (split_on c s) @ [x]])"
  by (induction s) (auto split: list.splits)

lemma keep_snoc_ws:
  assumes "is_ws x"
  shows "filter truthy_str (map trim (split_on c (s @ [x]))) =
         filter truthy_str (map trim (split_on c s))"
proof -
  obtain ys y where sp: "split_on c s = ys @ [y]"
    by (metis split_on_nonempty rev_exhaust)
  show ?thesis using assms sp
    by (simp add: split_on_snoc trim_ws_snoc truthy_str_def)
qed

lemma keep_drop_suffix:
  "filter truthy_str (map trim (split_on c (rev (dropWhile is_ws (rev s))))) =
   filter truthy_str (map trim (split_on c s))"
  by (induction s rule: rev_induct) (simp_all add: keep_snoc_ws)

lemma keep_trim:
  "filter truthy_str (map trim (split_on c (trim s))) =
   filter truthy_str (map trim (split_on c s))"
  by (subst trim_def) (simp only: keep_drop_suffix keep_drop_prefix)


lemma line_tokens_Nil [simp]: "line_tokens [] = []"
  by (simp add: line_tokens_def truthy_str_def)

lemma concat_line_tokens_filter:
  "concat (map line_tokens (filter truthy_str ls)) = concat (map line_tokens ls)"
  by (induction ls) (simp_all add: truthy_str_def)

lemma line_tokens_truthy: "t \<in> set (line_tokens l) \<Longrightarrow> truthy_str t"
  by (auto simp: line_tokens_def split: if_splits)

lemma filter_truthy_tokens:
  "filter truthy_str (concat (map line_tokens ls)) = concat (map line_tokens ls)"
  by (rule filter_True) (auto dest: line_tokens_truthy)

lemma parse_as_lines:
  "parseInvoiceNumbers raw =
     concat (map line_tokens (filter truthy_str (map trim (split_on newline raw))))"
proof -
  have "parseInvoiceNumbers raw =
          concat (map line_tokens (map trim (split_on newline (trim raw))))"
    by (simp add: parseInvoiceNumbers_def Let_def foldl_push_line filter_truthy_tokens)
  also have "\<dots> = concat (map line_tokens
                       (filter truthy_str (map trim (split_on newline (trim raw)))))"
    by (simp only: concat_line_tokens_filter)
  also have "\<dots> = concat (map line_tokens
                       (filter truthy_str (map trim (split_on newline raw))))"
    by (simp only: keep_trim)
  finally show ?thesis .
qed

lemma parse_refines_spec: "parseInvoiceNumbers raw = parse_spec raw"
proof -
  have "map line_tokens (filter truthy_str ls) =
        map (\<lambda>l. if comma \<in> set l
                   then filter (\<lambda>p. p \<noteq> []) (map trim (split_on comma l))
                   else [l]) (filter (\<lambda>l. l \<noteq> []) ls)" for ls
    by (induction ls) (simp_all add: line_tokens_def truthy_str_fun)
  then show ?thesis
    by (simp add: parse_as_lines parse_spec_def)
qed

lemma parse_no_empty: "[] \<notin> set (parseInvoiceNumbers raw)"
  by (auto simp: parse_as_lines truthy_str_def dest: line_tokens_truthy)

lemma line_tokens_trim:
  "line_tokens (trim l) = filter truthy_str (map trim (split_on comma l))"
proof -
  have "line_tokens (trim l) = filter truthy_str (map trim (split_on comma (trim l)))"
  proof (cases "trim l = []")
    case True
    then show ?thesis by (simp add: truthy_str_def)
  next
    case False
    then show ?thesis
      by (simp add: line_tokens_def truthy_str_def split_on_absent)
  qed
  then show ?thesis by (simp only: keep_trim)
qed

lemma parse_as_pieces:
  "parseInvoiceNumbers raw = filter truthy_str (map trim (pieces raw))"
proof -
  have "parseInvoiceNumbers raw =
          concat (map line_tokens (map trim (split_on newline raw)))"
    by (simp only: parse_as_lines concat_line_tokens_filter)
  also have "\<dots> = concat (map (\<lambda>l. filter truthy_str (map trim (split_on comma l)))
                       (split_on newline raw))"
    by (simp add: comp_def line_tokens_trim)
  also have "\<dots> = filter truthy_str (map trim (pieces raw))"
    by (simp add: pieces_def filter_concat map_concat comp_def)
  finally show ?thesis .
qed

lemma split_on_token_sep:
  "c \<notin> set t \<Longrightarrow>
   split_on c (t @ x # rest) =
     (if x = c then t # split_on c rest
      else (case split_on c rest of [] \<Rightarrow> [t @ [x]] | w # ws \<Rightarrow> (t @ x # w) # ws))"
  by (induction t) (auto split: list.splits)

lemma pieces_token_sep:
  assumes "newline \<notin> set t" "comma \<notin> set t" "is_sep c"
  shows "pieces (t @ c # rest) = t # pieces rest"
proof (cases "c = newline")
  case True
  with assms show ?thesis
    by (simp add: pieces_def split_on_token_sep split_on_absent)
next
  case False
  with assms have c: "c = comma" by (simp add: is_sep_def)
  obtain w ws where sp: "split_on newline rest = w # ws"
    by (cases "split_on newline rest") simp_all
  from assms False c sp show ?thesis
    by (simp add: pieces_def split_on_token_sep)
qed

lemma pieces_assemble:
  "list_all (\<lambda>(t, c). is_token t \<and> is_sep c) ps \<Longrightarrow>
   pieces (assemble ps) = map fst ps @ [[]]"
proof (induction ps)
  case Nil
  then show ?case by (simp add: assemble_def pieces_def)
next
  case (Cons p ps)
  obtain t c where p: "p = (t, c)" by (cases p)
  from Cons.prems p have tok: "newline \<notin> set t" "comma \<notin> set t" "is_sep c"
    by (simp_all add: is_token_def)
  have "assemble (p # ps) = t @ c # assemble ps"
    by (simp add: assemble_def p)
  with Cons tok show ?case
    by (simp add: pieces_token_sep p)
qed

lemma parse_assemble:
  assumes "list_all (\<lambda>(t, c). is_token t \<and> is_sep c) ps"
  shows "parseInvoiceNumbers (assemble ps) = map fst ps"
proof -
  from assms have tr: "map trim (map fst ps) = map fst ps"
    by (induction ps) (auto simp: is_token_def)
  from assms have ne: "filter truthy_str (map fst ps) = map fst ps"
    by (induction ps) (auto simp: is_token_def truthy_str_def)
  have "parseInvoiceNumbers (assemble ps) =
          filter truthy_str (map trim (map fst ps @ [[]]))"
    using assms by (simp only: parse_as_pieces pieces_assemble)
  also have "\<dots> = filter truthy_str (map fst ps @ [[]])"
    unfolding map_append tr by simp
  also have "\<dots> = map fst ps"
    using ne by (simp add: truthy_str_def)
  finally show ?thesis .
qed


section \<open>Claims about the parser\<close>

text \<open>
  C4. For every raw text, \<open>parseInvoiceNumbers\<close> computes what the specification
  describes: it splits on line feeds, trims each line, splits a trimmed line that contains
  a comma on commas and trims each piece, flattens in order and drops the empty strings at
  every stage. The text \<open>a\<close>, line feed, \<open>b,c\<close>, two line feeds, \<open>d\<close> gives
  \<open>a\<close>, \<open>b\<close>, \<open>c\<close>, \<open>d\<close>, and no element of any output is the empty string.
\<close>

theorem parse_follows_spec:
  "parseInvoiceNumbers raw = parse_spec raw
   \<and> parseInvoiceNumbers (''a'' @ [newline] @ ''b,c'' @ [newline, newline] @ ''d'')
       = [''a'', ''b'', ''c'', ''d'']
   \<and> [] \<notin> set (parseInvoiceNumbers raw)"
proof -
  have "parseInvoiceNumbers (''a'' @ [newline] @ ''b,c'' @ [newline, newline] @ ''d'')
        = [''a'', ''b'', ''c'', ''d'']"
    by (simp add: parseInvoiceNumbers_def trim_def is_ws_def newline_def comma_def
          push_line_def truthy_str_def)
  then show ?thesis
    using parse_refines_spec [of raw] parse_no_empty [of raw] by blast
qed

text \<open>
  C6. The parser removes nothing but empty strings: for every raw text the output is the
  sequence of the pieces of the text between line feeds and commas, each trimmed, in input
  order, the empty ones left out. So every token is in the output as often as it occurs
  among the trimmed pieces of the input: the text \<open>a\<close>, line feed, \<open>a\<close> gives
  \<open>a\<close> twice.
\<close>

theorem parse_keeps_every_token:
  "parseInvoiceNumbers raw = filter (\<lambda>p. p \<noteq> []) (map trim (pieces raw))
   \<and> count_list (parseInvoiceNumbers raw) t
       = (if t = [] then 0 else count_list (map trim (pieces raw)) t)
   \<and> parseInvoiceNumbers (''a'' @ [newline] @ ''a'') = [''a'', ''a'']
   \<and> parseInvoiceNumbers (''a'' @ [newline] @ ''b,a,a'' @ [newline]) = [''a'', ''b'', ''a'', ''a'']"
proof -
  have all: "parseInvoiceNumbers raw = filter (\<lambda>p. p \<noteq> []) (map trim (pieces raw))"
    using parse_as_pieces [of raw] by (simp add: truthy_str_fun)
  have "count_list (filter (\<lambda>p. p \<noteq> []) ps) t = (if t = [] then 0 else count_list ps t)"
    for ps :: "string list"
    by (induction ps) auto
  with all have cnt: "count_list (parseInvoiceNumbers raw) t
       = (if t = [] then 0 else count_list (map trim (pieces raw)) t)"
    by simp
  have two: "parseInvoiceNumbers (''a'' @ [newline] @ ''a'') = [''a'', ''a'']"
    by (simp add: parseInvoiceNumbers_def trim_def is_ws_def newline_def comma_def
          push_line_def truthy_str_def)
  have four: "parseInvoiceNumbers (''a'' @ [newline] @ ''b,a,a'' @ [newline])
              = [''a'', ''b'', ''a'', ''a'']"
    by (simp add: parseInvoiceNumbers_def trim_def is_ws_def newline_def comma_def
          push_line_def truthy_str_def)
  from all cnt two four show ?thesis by (intro conjI)
qed

section \<open>Reading payload values\<close>

lemma get_prop_nonnull: "v \<noteq> JNull \<Longrightarrow> get_prop v k = Inr (own_prop v k)"
  by (cases v) (simp_all add: get_prop_def)

lemma get_prop_null: "get_prop JNull k = Inl (TypeError (cannot_read k))"
  by (simp add: get_prop_def)

lemma own_prop_null [simp]: "own_prop JNull k = None"
  by (simp add: own_prop_def)

lemma status_success_nonnull:
  "r \<noteq> JNull \<Longrightarrow> status_success r = Inr (own_prop r ''status'' = Some (JStr ''success''))"
  by (simp add: status_success_def get_prop_nonnull)

lemma filter_thr_total:
  "(\<And>x. x \<in> set xs \<Longrightarrow> f x = Inr (p x)) \<Longrightarrow> filter_thr f xs = Inr (filter p xs)"
  by (induction xs) simp_all

lemma toStr_total:
  "(\<exists>t. toStr v = Inr t) = prints v"
  "(\<exists>ts. toStrs xs = Inr ts) = list_all prints xs"
  by (induction v and xs rule: toStr_toStrs.induct) (auto split: sum.splits)

lemma interp_total: "(\<exists>t. interp v = Inr t) = prints_opt v"
  by (cases v) (simp_all add: interp_def prints_opt_def toStr_total)

lemma interp_text_of: "prints_opt v \<Longrightarrow> interp v = Inr (text_of v)"
  using interp_total [of v] by (auto simp: text_of_def)

lemma count_successes:
  "JNull \<notin> set rs \<Longrightarrow> filter_thr status_success rs = Inr (filter is_success rs)"
  by (induction rs) (auto simp: status_success_nonnull is_success_def)

section \<open>Steps of a batch run\<close>

lemma displayResults_counts:
  assumes "get_prop data ''results'' = Inr (Some (JArr rs))" and "JNull \<notin> set rs"
  shows "totalCount (snd (displayResults st data)) = int (length rs)"
    and "successCount (snd (displayResults st data)) = int (length (filter is_success rs))"
    and "errorCount (snd (displayResults st data))
           = int (length rs) - int (length (filter is_success rs))"
  using assms
  by (simp_all add: displayResults_def Let_def count_successes split: prod.splits option.splits)

lemma scan_stops_at_null:
  "JNull \<in> set rs \<Longrightarrow> \<exists>e. filter_thr status_success rs = Inl e"
proof (induction rs)
  case Nil
  then show ?case by simp
next
  case (Cons r rs)
  show ?case
  proof (cases "r = JNull")
    case True
    then show ?thesis by (simp add: status_success_def get_prop_null)
  next
    case False
    with Cons obtain e where "filter_thr status_success rs = Inl e" by auto
    with False show ?thesis by (simp add: status_success_nonnull)
  qed
qed

lemma displayResults_null_element:
  assumes "get_prop data ''results'' = Inr (Some (JArr rs))" and "JNull \<in> set rs"
  shows "\<exists>e. displayResults st data
               = (Some e, st\<lparr>invoiceList := [], totalCount := int (length rs)\<rparr>)"
proof -
  obtain e where "filter_thr status_success rs = Inl e"
    using scan_stops_at_null [OF assms(2)] by blast
  with assms(1) show ?thesis
    by (simp add: displayResults_def Let_def)
qed

lemma displayResults_currentResults [simp]:
  "currentResults (snd (displayResults st data)) = currentResults st"
  by (simp add: displayResults_def Let_def split: sum.splits prod.splits option.splits)

lemma displayResults_requests [simp]:
  "requests (snd (displayResults st data)) = requests st"
  by (simp add: displayResults_def Let_def split: sum.splits prod.splits option.splits)

lemma displayResults_bad_shape:
  assumes "\<not> is_array (own_prop data ''results'')"
  shows "displayResults st data =
           (if data = JNull
            then (Some (TypeError (cannot_read ''results'')), st\<lparr>invoiceList := []\<rparr>)
            else (None, st\<lparr>invoiceList := [],
                           apiErrorText := ''Invalid response format from API'',
                           apiErrorShown := True\<rparr>))"
proof (cases "data = JNull")
  case True
  then show ?thesis by (simp add: displayResults_def get_prop_null)
next
  case False
  with assms show ?thesis
    by (simp add: displayResults_def get_prop_nonnull)
qed

lemma checkInvoices_run:
  assumes "parseInvoiceNumbers (invoiceNumbersInput st) = ids" "ids \<noteq> []"
    and "trim (apiUrlInput st) = u" "u \<noteq> []"
  shows "checkInvoices net now st =
           (let st1 = st\<lparr>spinnerShown := True, checkDisabled := True, apiErrorShown := False\<rparr>;
                res = check_try net now u ids st1;
                st3 = (case fst res of
                         None \<Rightarrow> snd res
                       | Some error \<Rightarrow>
                           (snd res)\<lparr>apiErrorText := ''Error: '' @ message error,
                                     apiErrorShown := True\<rparr>)
            in st3\<lparr>spinnerShown := False, checkDisabled := False\<rparr>)"
  using assms by (simp add: checkInvoices_def Let_def case_prod_beta)

lemma check_try_parsed:
  assumes "net (batch_request u ids) = Resolved r" "ok r" "bodyJson r = Inr data"
  shows "check_try net now u ids st =
           displayResults
             (st\<lparr>requests := requests st @ [batch_request u ids],
                 currentResults := Some (JObj (spread (local_fields now u ids) data))\<rparr>)
             data"
  using assms by (simp add: check_try_def Let_def)

lemma check_try_currentResults:
  "currentResults (snd (check_try net now u ids st)) =
     (case net (batch_request u ids) of
        Rejected e \<Rightarrow> currentResults st
      | Resolved r \<Rightarrow>
          if ok r
          then (case bodyJson r of
                  Inl e \<Rightarrow> currentResults st
                | Inr data \<Rightarrow> Some (JObj (spread (local_fields now u ids) data)))
          else currentResults st)"
  by (simp add: check_try_def Let_def split: fetch_outcome.splits sum.splits)

lemma check_try_requests:
  "requests (snd (check_try net now u ids st)) = requests st @ [batch_request u ids]"
  by (simp add: check_try_def Let_def split: fetch_outcome.splits sum.splits)

lemma currentResults_after_run:
  "currentResults (checkInvoices net now st) =
     (let ids = parseInvoiceNumbers (invoiceNumbersInput st);
          u = trim (apiUrlInput st)
      in if ids = [] \<or> u = [] then currentResults st
         else (case net (batch_request u ids) of
                 Rejected e \<Rightarrow> currentResults st
               | Resolved r \<Rightarrow>
                   if ok r
                   then (case bodyJson r of
                           Inl e \<Rightarrow> currentResults st
                         | Inr data \<Rightarrow> Some (JObj (spread (local_fields now u ids) data)))
                   else currentResults st))"
proof -
  let ?ids = "parseInvoiceNumbers (invoiceNumbersInput st)"
  let ?u = "trim (apiUrlInput st)"
  show ?thesis
  proof (cases "?ids = [] \<or> ?u = []")
    case True
    then show ?thesis by (auto simp: checkInvoices_def Let_def)
  next
    case False
    then have "?ids \<noteq> []" "?u \<noteq> []" by simp_all
    from checkInvoices_run [OF refl this(1) refl this(2), of net now]
    have "currentResults (checkInvoices net now st) =
          currentResults (snd (check_try net now ?u ?ids
             (st\<lparr>spinnerShown := True, checkDisabled := True, apiErrorShown := False\<rparr>)))"
      by (simp add: Let_def split: option.splits)
    then show ?thesis using False
      by (simp add: Let_def check_try_currentResults split: fetch_outcome.splits sum.splits)
  qed
qed

lemma summary_counts_nonnull:
  assumes "net (batch_request u ids) = Resolved r" and "ok r" and "bodyJson r = Inr data"
    and "get_prop data ''results'' = Inr (Some (JArr rs))" and "JNull \<notin> set rs"
  shows "totalCount (snd (check_try net now u ids st)) = int (length rs)"
    and "successCount (snd (check_try net now u ids st)) = int (length (filter is_success rs))"
    and "errorCount (snd (check_try net now u ids st))
           = int (length rs) - int (length (filter is_success rs))"
  unfolding check_try_parsed [where net = net, OF assms(1-3)]
  by (rule displayResults_counts [OF assms(4,5)])+

lemma exportJSON_currentResults: "currentResults (exportJSON t st) = currentResults st"
  by (simp add: exportJSON_def split: option.splits)

lemma exportCSV_currentResults: "currentResults (snd (exportCSV t st)) = currentResults st"
  by (simp add: exportCSV_def split: option.splits sum.splits)

lemma sample_ids: "parseInvoiceNumbers (invoiceNumbersInput sample_page) = [''INV1'']"
  by (simp add: sample_page_def fresh_page_def parseInvoiceNumbers_def trim_def is_ws_def
        newline_def comma_def push_line_def truthy_str_def)

lemma sample_url: "trim (apiUrlInput sample_page) = LOCAL_API_URL"
  by (simp add: sample_page_def fresh_page_def LOCAL_API_URL_def trim_def is_ws_def)

lemma LOCAL_nonempty: "LOCAL_API_URL \<noteq> []"
  by (simp add: LOCAL_API_URL_def)

section \<open>Property order and the spread\<close>

lemma map_of_insert_index:
  "k \<notin> fst ` set kvs \<Longrightarrow> map_of (insert_index i k v kvs) = (map_of kvs)(k \<mapsto> v)"
proof (induction kvs)
  case Nil
  then show ?case by simp
next
  case (Cons p kvs)
  obtain k' v' where p: "p = (k', v')" by (cases p)
  with Cons show ?case
    by (auto simp: fun_upd_twist split: option.splits)
qed

lemma map_of_snoc_fresh:
  assumes "k \<notin> fst ` set kvs"
  shows "map_of (kvs @ [(k, v)]) = (map_of kvs)(k \<mapsto> v)"
proof -
  from assms have "map_of kvs k = None"
    by (simp add: map_of_eq_None_iff)
  then show ?thesis
    by (auto simp: map_add_def fun_eq_iff split: option.splits)
qed

lemma map_of_put_prop: "map_of (put_prop k v kvs) = (map_of kvs)(k \<mapsto> v)"
proof (cases "k \<in> fst ` set kvs")
  case True
  then show ?thesis by (simp add: put_prop_def update_conv')
next
  case False
  show ?thesis
  proof (cases "array_index k")
    case None
    with False map_of_snoc_fresh [OF False, of v] show ?thesis
      by (simp add: put_prop_def del: map_of_append)
  next
    case (Some i)
    with False show ?thesis
      by (simp add: put_prop_def map_of_insert_index)
  qed
qed

lemma map_of_foldl_put:
  "map_of (foldl (\<lambda>obj (k, w). put_prop k w obj) target ps)
   = map_of target ++ map_of (rev ps)"
proof (induction ps arbitrary: target)
  case Nil
  then show ?case by simp
next
  case (Cons p ps)
  obtain k w where p: "p = (k, w)" by (cases p)
  have "map_of (put_prop k w target) ++ map_of (rev ps)
        = map_of target ++ (map_of (rev ps) ++ [k \<mapsto> w] ++ map_of (rev ps))"
    by (rule ext) (simp add: map_of_put_prop map_add_def split: option.splits)
  then show ?case
    using Cons.IH [of "put_prop k w target"]
    by (simp add: p) (rule ext, simp add: map_add_def split: option.splits)
qed

lemma map_of_rev_distinct:
  "distinct (map fst ps) \<Longrightarrow> map_of (rev ps) = map_of ps"
proof (induction ps)
  case Nil
  then show ?case by simp
next
  case (Cons p ps)
  obtain k v where p: "p = (k, v)" by (cases p)
  from Cons.prems p have "map_of ps k = None"
    by (simp add: map_of_eq_None_iff)
  with Cons p show ?case
    by (auto simp: map_add_def fun_eq_iff split: option.splits)
qed

lemma of_char_digit: "d < 10 \<Longrightarrow> of_char (digit_char d) = 48 + d"
  by (simp add: digit_char_def)

lemma digit_char_inj: "a < 10 \<Longrightarrow> b < 10 \<Longrightarrow> digit_char a = digit_char b \<Longrightarrow> a = b"
proof -
  assume a: "a < 10" and b: "b < 10" and e: "digit_char a = digit_char b"
  from e have "(of_char (digit_char a) :: nat) = of_char (digit_char b)" by simp
  with a b show "a = b" by (simp add: of_char_digit)
qed

lemma show_nat_small: "n < 10 \<Longrightarrow> show_nat n = [digit_char n]"
  by (subst show_nat.simps) simp

lemma show_nat_large:
  "\<not> n < 10 \<Longrightarrow> show_nat n = show_nat (n div 10) @ [digit_char (n mod 10)]"
  by (subst show_nat.simps) simp

lemma show_nat_nonempty: "show_nat n \<noteq> []"
  by (cases "n < 10") (simp_all add: show_nat_small show_nat_large)

lemma show_nat_nonempty': "[] \<noteq> show_nat n"
  using show_nat_nonempty [of n] by simp

lemma show_nat_inj: "show_nat n = show_nat m \<Longrightarrow> n = m"
proof (induction n arbitrary: m rule: show_nat.induct)
  case (1 n)
  show ?case
  proof (cases "n < 10")
    case True
    show ?thesis
    proof (cases "m < 10")
      case m: True
      with True "1.prems" show ?thesis
        by (simp add: show_nat_small digit_char_inj)
    next
      case m: False
      with True "1.prems" show ?thesis
        by (simp add: show_nat_small show_nat_large show_nat_nonempty')
    qed
  next
    case False
    show ?thesis
    proof (cases "m < 10")
      case m: True
      with False "1.prems" [symmetric] show ?thesis
        by (simp add: show_nat_small show_nat_large show_nat_nonempty')
    next
      case m: False
      with False "1.prems" have e: "show_nat (n div 10) = show_nat (m div 10)"
        and d: "digit_char (n mod 10) = digit_char (m mod 10)"
        by (simp_all add: show_nat_large)
      from "1.IH" [OF False e] have "n div 10 = m div 10" .
      moreover from d have "n mod 10 = m mod 10"
        by (intro digit_char_inj) simp_all
      ultimately show ?thesis
        by (metis div_mult_mod_eq)
    qed
  qed
qed

lemma distinct_indices: "distinct (map show_nat [0..<n])"
  by (simp add: distinct_map inj_on_def show_nat_inj)

lemma distinct_own_props: "distinct (map fst (own_props v))"
proof (cases v)
  case (JArr xs)
  have "map fst (zip (map show_nat [0..<length xs]) xs) = map show_nat [0..<length xs]"
    by simp
  with distinct_indices [of "length xs"] JArr show ?thesis by simp
next
  case (JStr s)
  have "map fst (zip (map show_nat [0..<length s]) (map (\<lambda>c. JStr [c]) s))
        = map show_nat [0..<length s]"
    by simp
  with distinct_indices [of "length s"] JStr show ?thesis by simp
qed simp_all

lemma map_of_spread:
  "map_of (spread target v) k =
     (case map_of (own_props v) k of Some w \<Rightarrow> Some w | None \<Rightarrow> map_of target k)"
  by (simp add: spread_def map_of_foldl_put map_of_rev_distinct [OF distinct_own_props]
        map_add_def)

lemma own_props_object: "map_of (own_props (JObj kvs)) = map_of kvs"
  by (simp add: map_of_clearjunk)

section \<open>Cells of the delimited form\<close>

lemma csv_quote_plain: "dquote \<notin> set v \<Longrightarrow> csv_quote v = [dquote] @ v @ [dquote]"
proof -
  assume "dquote \<notin> set v"
  then have "concat (map (\<lambda>c. if c = dquote then [dquote, dquote] else [c]) v) = v"
    by (induction v) auto
  then show ?thesis by (simp add: csv_quote_def)
qed

lemma length_csv_quote:
  "length (csv_quote v) = length v + length (filter (\<lambda>c. c = dquote) v) + 2"
  by (induction v) (simp_all add: csv_quote_def)

lemma csv_quote_wraps: "(csv_quote v = [dquote] @ v @ [dquote]) = (dquote \<notin> set v)"
proof
  assume "csv_quote v = [dquote] @ v @ [dquote]"
  then have "length (csv_quote v) = length v + 2" by simp
  then have "filter (\<lambda>c. c = dquote) v = []" by (simp add: length_csv_quote)
  then show "dquote \<notin> set v" by (auto simp: filter_empty_conv)
next
  assume "dquote \<notin> set v"
  then show "csv_quote v = [dquote] @ v @ [dquote]" by (rule csv_quote_plain)
qed

lemma cell_prints: "prints_opt v \<Longrightarrow> cell a v b = Inr (a @ text_of v @ b)"
  by (simp add: cell_def interp_text_of)

lemma cell_built: "cell a v b = Inr c \<Longrightarrow> prints_opt v"
  using interp_total [of v] by (auto simp: cell_def split: sum.splits)

lemma cell_values_nth:
  "cell_values r ! 0 = own_prop r ''invoice_number''"
  "cell_values r ! 1 = own_prop r ''status''"
  "cell_values r ! 2 = or_else (own_prop r ''error'') (JStr [])"
  "cell_values r ! 3 = data_field r ''Control Unit Invoice Number''"
  "cell_values r ! 4 = data_field r ''Trader System Invoice No''"
  "cell_values r ! 5 = data_field r ''Invoice Date''"
  "cell_values r ! 6 = data_field r ''Total Taxable Amount''"
  "cell_values r ! 7 = data_field r ''Total Tax Amount''"
  "cell_values r ! 8 = data_field r ''Total Invoice Amount''"
  "cell_values r ! 9 = data_field r ''Supplier Name''"
  by (simp_all add: cell_values_def columns_def)

lemma length_cell_values: "length (cell_values r) = 10"
  by (simp add: cell_values_def columns_def)

lemma csv_row_prints:
  assumes "row_prints r"
  shows "csv_row r =
     Inr [[dquote, apostrophe] @ text_of (cell_values r ! 0) @ [dquote],
          [dquote] @ text_of (cell_values r ! 1) @ [dquote],
          [dquote] @ text_of (cell_values r ! 2) @ [dquote],
          [apostrophe] @ text_of (cell_values r ! 3),
          [dquote] @ text_of (cell_values r ! 4) @ [dquote],
          [dquote] @ text_of (cell_values r ! 5) @ [dquote],
          [dquote] @ text_of (cell_values r ! 6) @ [dquote],
          [dquote] @ text_of (cell_values r ! 7) @ [dquote],
          [dquote] @ text_of (cell_values r ! 8) @ [dquote],
          [dquote] @ text_of (cell_values r ! 9) @ [dquote]]"
proof -
  from assms have nn: "r \<noteq> JNull" and all: "list_all prints_opt (cell_values r)"
    by (simp_all add: row_prints_def)
  from all have p: "prints_opt (own_prop r ''invoice_number'')"
      "prints_opt (own_prop r ''status'')"
      "prints_opt (or_else (own_prop r ''error'') (JStr []))"
      "prints_opt (data_field r ''Control Unit Invoice Number'')"
      "prints_opt (data_field r ''Trader System Invoice No'')"
      "prints_opt (data_field r ''Invoice Date'')"
      "prints_opt (data_field r ''Total Taxable Amount'')"
      "prints_opt (data_field r ''Total Tax Amount'')"
      "prints_opt (data_field r ''Total Invoice Amount'')"
      "prints_opt (data_field r ''Supplier Name'')"
    by (simp_all add: cell_values_def columns_def)
  show ?thesis
    unfolding cell_values_nth
    by (simp add: csv_row_def get_prop_nonnull [OF nn] p [THEN cell_prints])
qed

lemma csv_row_built: "csv_row r = Inr cells \<Longrightarrow> row_prints r"
proof -
  assume built: "csv_row r = Inr cells"
  then have nn: "r \<noteq> JNull"
    by (auto simp: csv_row_def get_prop_null)
  have "list_all prints_opt (cell_values r)"
    using built
    by (auto simp: csv_row_def get_prop_nonnull [OF nn] cell_values_def columns_def
             split: sum.splits dest: cell_built)
  with nn show ?thesis by (simp add: row_prints_def)
qed

lemma csv_row_cells: "row_prints r \<Longrightarrow> csv_row r = Inr (row_cells r)"
  using csv_row_prints [of r] by (simp add: row_cells_def)

lemma map_thr_total:
  "(\<And>x. x \<in> set xs \<Longrightarrow> f x = Inr (g x)) \<Longrightarrow> map_thr f xs = Inr (map g xs)"
  by (induction xs) simp_all

lemma csv_content_prints:
  assumes "list_all row_prints rs"
  shows "csv_content rs =
           Inr (join '','' columns @ [newline]
                @ concat (map (\<lambda>r. join '','' (row_cells r) @ [newline]) rs))"
proof -
  have "map_thr csv_row rs = Inr (map row_cells rs)"
    using assms by (intro map_thr_total csv_row_cells) (simp add: list_all_iff)
  then show ?thesis
    by (simp add: csv_content_def comp_def)
qed

lemma exportCSV_prints:
  assumes "currentResults st = Some cur" and "own_prop cur ''results'' = Some (JArr rs)"
    and "list_all row_prints rs"
  shows "exportCSV t st =
           (None, st\<lparr>downloads := downloads st @
                    [\<lparr>filename = ''kra_invoice_results_'' @ file_stamp t @ ''.csv'',
                      mime = ''text/csv'',
                      content = join '','' columns @ [newline]
                                @ concat (map (\<lambda>r. join '','' (row_cells r) @ [newline]) rs)\<rparr>]\<rparr>)"
proof -
  from assms(2) have "cur \<noteq> JNull" by (auto simp: own_prop_def)
  then have "get_prop cur ''results'' = Inr (Some (JArr rs))"
    using assms(2) by (simp add: get_prop_nonnull)
  then show ?thesis
    using assms(1) by (simp add: exportCSV_def csv_content_prints [OF assms(3)])
qed

section \<open>Reading the structured form back\<close>

lemma hex_val_hex_char: "d < 16 \<Longrightarrow> hex_val (hex_char d) = Some d"
  by (auto simp: hex_val_def hex_char_def Let_def)

lemma char_by_code: "(of_char c :: nat) = of_char d \<Longrightarrow> c = d"
  by simp

lemma hex4_low:
  assumes "n < 32"
  shows "hex4 (CHR ''0'') (CHR ''0'') (hex_char (n div 16)) (hex_char (n mod 16)) = Got (char_of n)"
proof -
  have "n div 16 < 16" "n mod 16 < 16" using assms by simp_all
  then have "hex_val (hex_char (n div 16)) = Some (n div 16)"
    "hex_val (hex_char (n mod 16)) = Some (n mod 16)"
    by (simp_all add: hex_val_hex_char)
  moreover have "hex_val (CHR ''0'') = Some 0" by (simp add: hex_val_def)
  ultimately show ?thesis by (simp add: hex4_def)
qed

lemma str_body_quote_char:
  "str_body (quote_char c @ rest) = map_reading (\<lambda>(t, r). (c # t, r)) (str_body rest)"
proof -
  let ?n = "of_char c :: nat"
  have c: "c = char_of ?n" by simp
  consider "?n = 8" | "?n = 9" | "?n = 10" | "?n = 12" | "?n = 13"
    | "c = dquote" | "c = backslash"
    | "?n < 32" "?n \<noteq> 8" "?n \<noteq> 9" "?n \<noteq> 10" "?n \<noteq> 12" "?n \<noteq> 13"
    | "\<not> ?n < 32" "c \<noteq> dquote" "c \<noteq> backslash"
    by blast
  then show ?thesis
  proof cases
    case 1
    then have "c = CHR 0x08" using char_by_code [of c "CHR 0x08"] by simp
    then show ?thesis
      by (simp add: quote_char_def unescape_def dquote_def backslash_def split: option.splits)
  next
    case 2
    then have "c = CHR 0x09" using char_by_code [of c "CHR 0x09"] by simp
    then show ?thesis
      by (simp add: quote_char_def unescape_def dquote_def backslash_def split: option.splits)
  next
    case 3
    then have "c = CHR 0x0A" using char_by_code [of c "CHR 0x0A"] by simp
    then show ?thesis
      by (simp add: quote_char_def unescape_def dquote_def backslash_def split: option.splits)
  next
    case 4
    then have "c = CHR 0x0C" using char_by_code [of c "CHR 0x0C"] by simp
    then show ?thesis
      by (simp add: quote_char_def unescape_def dquote_def backslash_def split: option.splits)
  next
    case 5
    then have "c = CHR 0x0D" using char_by_code [of c "CHR 0x0D"] by simp
    then show ?thesis
      by (simp add: quote_char_def unescape_def dquote_def backslash_def split: option.splits)
  next
    case 6
    then show ?thesis
      by (simp add: quote_char_def unescape_def dquote_def backslash_def split: option.splits)
  next
    case 7
    then show ?thesis
      by (simp add: quote_char_def unescape_def dquote_def backslash_def split: option.splits)
  next
    case 8
    have ne: "c \<noteq> dquote" "c \<noteq> backslash"
      using 8(1) by (auto simp: dquote_def backslash_def)
    have q: "quote_char c = [backslash, CHR ''u'', CHR ''0'', CHR ''0'',
                             hex_char (?n div 16), hex_char (?n mod 16)]"
      using 8 ne by (simp add: quote_char_def Let_def)
    have "hex4 (CHR ''0'') (CHR ''0'') (hex_char (?n div 16)) (hex_char (?n mod 16)) = Got c"
      using hex4_low [OF 8(1)] by simp
    then show ?thesis
      unfolding q by (simp add: dquote_def backslash_def)
  next
    case 9
    then have "quote_char c = [c]"
      by (auto simp: quote_char_def Let_def)
    with 9 show ?thesis by simp
  qed
qed

lemma str_body_quoted:
  "str_body (concat (map quote_char s) @ dquote # rest) = Got (s, rest)"
  by (induction s) (simp_all add: str_body_quote_char map_reading_def)

lemma json_ws_simps [simp]:
  "\<not> json_ws dquote" "\<not> json_ws (CHR ''['')" "\<not> json_ws (CHR ''{'')"
  "\<not> json_ws (CHR '']'')" "\<not> json_ws (CHR ''}'')" "\<not> json_ws (CHR '','')"
  "\<not> json_ws (CHR '':'')" "json_ws newline" "json_ws (CHR '' '')"
  by (simp_all add: json_ws_def dquote_def newline_def)

lemma skip_ws_prefix: "list_all json_ws w \<Longrightarrow> skip_ws (w @ s) = skip_ws s"
  by (induction w) (simp_all add: skip_ws_def)

lemma skip_ws_stop: "\<not> json_ws c \<Longrightarrow> skip_ws (c # s) = c # s"
  by (simp add: skip_ws_def)

lemma skip_ws_Nil [simp]: "skip_ws [] = []"
  by (simp add: skip_ws_def)

lemma is_digit_digit_char: "d < 10 \<Longrightarrow> is_digit (digit_char d)"
  by (simp add: is_digit_def of_char_digit)

lemma digits_show_nat: "list_all is_digit (show_nat n)"
proof (induction n rule: show_nat.induct)
  case (1 n)
  show ?case
  proof (cases "n < 10")
    case True
    then show ?thesis by (simp add: show_nat_small is_digit_digit_char)
  next
    case False
    with 1 show ?thesis by (simp add: show_nat_large is_digit_digit_char)
  qed
qed

lemma digits_val_snoc: "digits_val (ds @ [c]) = 10 * digits_val ds + (of_char c - 48)"
  by (simp add: digits_val_def)

lemma of_char_digit_int: "d < 10 \<Longrightarrow> (of_char (digit_char d) :: int) = 48 + int d"
proof -
  assume "d < 10"
  then have "(of_char (digit_char d) :: nat) = 48 + d" by (rule of_char_digit)
  then have "int (of_char (digit_char d)) = int (48 + d)" by simp
  then show ?thesis by (simp add: of_nat_of_char)
qed

lemma digits_val_show_nat: "digits_val (show_nat n) = int n"
proof (induction n rule: show_nat.induct)
  case (1 n)
  show ?case
  proof (cases "n < 10")
    case True
    then show ?thesis
      by (simp add: show_nat_small digits_val_def of_char_digit_int)
  next
    case False
    with 1 have "digits_val (show_nat (n div 10)) = int (n div 10)" by simp
    with False show ?thesis
      by (simp add: show_nat_large digits_val_snoc of_char_digit_int zdiv_int zmod_int)
  qed
qed

lemma show_nat_zero: "show_nat 0 = ''0''"
  by code_simp

lemma hd_show_nat_large: "\<not> n < 10 \<Longrightarrow> hd (show_nat n) = hd (show_nat (n div 10))"
  by (simp add: show_nat_large show_nat_nonempty)

lemma no_leading_zero: "hd (show_nat n) = CHR ''0'' \<Longrightarrow> show_nat n = ''0''"
proof (induction n rule: show_nat.induct)
  case (1 n)
  show ?case
  proof (cases "n < 10")
    case True
    with "1.prems" show ?thesis by (simp add: show_nat_small)
  next
    case False
    with "1.prems" have "hd (show_nat (n div 10)) = CHR ''0''"
      by (simp add: hd_show_nat_large)
    with "1.IH" False have "show_nat (n div 10) = show_nat 0"
      by (simp add: show_nat_zero)
    then have "n div 10 = 0" by (rule show_nat_inj)
    with False show ?thesis by simp
  qed
qed

lemma follow_not_digit: "follow rest \<Longrightarrow> rest = [] \<or> \<not> is_digit (hd rest)"
  by (auto simp: follow_def is_digit_def json_ws_def split: list.splits)

lemma follow_not_frac:
  "follow rest \<Longrightarrow>
   \<not> (rest \<noteq> [] \<and> (hd rest = CHR ''.'' \<or> hd rest = CHR ''e'' \<or> hd rest = CHR ''E''))"
  by (auto simp: follow_def json_ws_def split: list.splits)

lemma take_digits:
  assumes "list_all is_digit ds" "rest = [] \<or> \<not> is_digit (hd rest)"
  shows "takeWhile is_digit (ds @ rest) = ds" "dropWhile is_digit (ds @ rest) = rest"
proof -
  from assms(2) have "takeWhile is_digit rest = []" "dropWhile is_digit rest = rest"
    by (cases rest; simp)+
  with assms(1) show "takeWhile is_digit (ds @ rest) = ds"
    "dropWhile is_digit (ds @ rest) = rest"
    by (simp_all add: takeWhile_append2 dropWhile_append2 list_all_iff)
qed

lemma read_digits_show_nat:
  assumes "follow rest"
  shows "takeWhile is_digit (show_nat n @ rest) = show_nat n"
    and "dropWhile is_digit (show_nat n @ rest) = rest"
  using take_digits [OF digits_show_nat follow_not_digit [OF assms]] by simp_all

lemma hd_show_nat_digit: "is_digit (hd (show_nat n))"
  using digits_show_nat [of n] show_nat_nonempty [of n]
  by (cases "show_nat n") simp_all

lemma hd_show_nat_not_minus: "hd (show_nat n) \<noteq> CHR ''-''"
  using hd_show_nat_digit [of n] by (auto simp: is_digit_def)

lemma leading: "\<not> (hd (show_nat n) = CHR ''0'' \<and> tl (show_nat n) \<noteq> [])"
  using no_leading_zero [of n] by auto

lemma read_number_nat:
  assumes "follow rest" and "int n \<le> 9007199254740991"
  shows "read_number (show_nat n @ rest) = Got (JNum (word_of_int (int n)), rest)"
proof -
  have h: "hd (show_nat n @ rest) = hd (show_nat n)" "show_nat n @ rest \<noteq> []"
    using show_nat_nonempty [of n] by simp_all
  show ?thesis
    unfolding read_number_def Let_def h
    using hd_show_nat_not_minus [of n] leading [of n] follow_not_frac [OF assms(1)] assms(2)
    by (simp add: read_digits_show_nat [OF assms(1)] show_nat_nonempty digits_val_show_nat)
qed

lemma read_number_neg:
  assumes "follow rest" and "0 < n" and "int n \<le> 9007199254740992"
  shows "read_number (CHR ''-'' # show_nat n @ rest) = Got (JNum (word_of_int (- int n)), rest)"
  unfolding read_number_def Let_def
  using leading [of n] follow_not_frac [OF assms(1)] assms(2,3)
  by (simp add: read_digits_show_nat [OF assms(1)] show_nat_nonempty digits_val_show_nat)

lemma sint_bounds:
  fixes w :: "54 word"
  shows "- 9007199254740992 \<le> sint w" and "sint w \<le> 9007199254740991"
  using sint_ge [of w] sint_lt [of w] by simp_all

lemma read_number_show_int:
  fixes w :: "54 word"
  assumes "follow rest"
  shows "read_number (show_int (sint w) @ rest) = Got (JNum w, rest)"
proof (cases "sint w < 0")
  case True
  then have "0 < nat (- sint w)" "int (nat (- sint w)) \<le> 9007199254740992"
    using sint_bounds(1) [of w] by simp_all
  from read_number_neg [OF assms this] True show ?thesis
    by (simp add: show_int_def)
next
  case False
  then have "int (nat (sint w)) \<le> 9007199254740991"
    using sint_bounds(2) [of w] by simp
  from read_number_nat [OF assms this] False show ?thesis
    by (simp add: show_int_def)
qed

lemma parse_value_eq:
  "parse_at Value s =
          (case skip_ws s of
             [] \<Rightarrow> Some Malformed
           | c # cs \<Rightarrow>
               if c = CHR ''{'' then
                 (case skip_ws cs of
                    [] \<Rightarrow> Some Malformed
                  | c2 # r \<Rightarrow> if c2 = CHR ''}'' then Some (Got (JObj [], r))
                              else parse_at (Members []) cs)
               else if c = CHR ''['' then
                 (case skip_ws cs of
                    [] \<Rightarrow> Some Malformed
                  | c2 # r \<Rightarrow> if c2 = CHR '']'' then Some (Got (JArr [], r))
                              else parse_at (Elems []) cs)
               else if c = dquote then
                 Some (map_reading (\<lambda>(t, r). (JStr t, r)) (str_body cs))
               else if take 4 (c # cs) = ''null'' then Some (Got (JNull, drop 3 cs))
               else if take 4 (c # cs) = ''true'' then Some (Got (JBool True, drop 3 cs))
               else if take 5 (c # cs) = ''false'' then Some (Got (JBool False, drop 4 cs))
               else Some (read_number (c # cs)))"
  by (subst parse_at.simps) simp

lemma parse_elems_eq:
  "parse_at (Elems acc) s =
          Option.bind (parse_at Value s)
            (\<lambda>got. case got of
                     Malformed \<Rightarrow> Some Malformed
                   | Beyond \<Rightarrow> Some Beyond
                   | Got (v, r) \<Rightarrow>
                       (case skip_ws r of
                          [] \<Rightarrow> Some Malformed
                        | c # r' \<Rightarrow>
                            if c = CHR '','' then parse_at (Elems (acc @ [v])) r'
                            else if c = CHR '']'' then Some (Got (JArr (acc @ [v]), r'))
                            else Some Malformed))"
  by (subst parse_at.simps) simp

lemma parse_members_eq:
  "parse_at (Members acc) s =
          (case skip_ws s of
             [] \<Rightarrow> Some Malformed
           | c # cs \<Rightarrow>
               if c = dquote then
                 (case str_body cs of
                    Malformed \<Rightarrow> Some Malformed
                  | Beyond \<Rightarrow> Some Beyond
                  | Got (k, r) \<Rightarrow>
                      (case skip_ws r of
                         [] \<Rightarrow> Some Malformed
                       | c2 # r2 \<Rightarrow>
                           if c2 = CHR '':'' then
                             Option.bind (parse_at Value r2)
                               (\<lambda>got. case got of
                                        Malformed \<Rightarrow> Some Malformed
                                      | Beyond \<Rightarrow> Some Beyond
                                      | Got (v, r3) \<Rightarrow>
                                          (case skip_ws r3 of
                                             [] \<Rightarrow> Some Malformed
                                           | c3 # r4 \<Rightarrow>
                                               if c3 = CHR '','' then
                                                 parse_at (Members (put_prop k v acc)) r4
                                               else if c3 = CHR ''}'' then
                                                 Some (Got (JObj (put_prop k v acc), r4))
                                               else Some Malformed))
                           else Some Malformed))
               else Some Malformed)"
  by (subst parse_at.simps) simp

lemma parse_value_skip:
  "list_all json_ws w \<Longrightarrow> parse_at Value (w @ s) = parse_at Value s"
  by (simp add: parse_value_eq [of "w @ s"] parse_value_eq [of s] skip_ws_prefix)

lemma parse_members_skip:
  "list_all json_ws w \<Longrightarrow> parse_at (Members acc) (w @ s) = parse_at (Members acc) s"
  by (simp add: parse_members_eq [of acc "w @ s"] parse_members_eq [of acc s] skip_ws_prefix)

lemma parse_null: "parse_at Value (''null'' @ rest) = Some (Got (JNull, rest))"
  by (simp add: parse_value_eq skip_ws_def json_ws_def dquote_def)

lemma parse_true: "parse_at Value (''true'' @ rest) = Some (Got (JBool True, rest))"
  by (simp add: parse_value_eq skip_ws_def json_ws_def dquote_def)

lemma parse_false: "parse_at Value (''false'' @ rest) = Some (Got (JBool False, rest))"
  by (simp add: parse_value_eq skip_ws_def json_ws_def dquote_def)

lemma parse_string: "parse_at Value (quote_json s @ rest) = Some (Got (JStr s, rest))"
  by (simp add: parse_value_eq quote_json_def skip_ws_stop str_body_quoted map_reading_def)
     (simp add: dquote_def)

lemma show_int_hd:
  "\<exists>c cs. show_int i = c # cs \<and> (c = CHR ''-'' \<or> is_digit c)"
proof (cases "i < 0")
  case True
  then show ?thesis by (simp add: show_int_def)
next
  case False
  obtain c cs where "show_nat (nat i) = c # cs"
    using show_nat_nonempty [of "nat i"] by (cases "show_nat (nat i)") auto
  with hd_show_nat_digit [of "nat i"] False show ?thesis
    by (simp add: show_int_def)
qed

lemma parse_number:
  fixes w :: "54 word"
  assumes "follow rest"
  shows "parse_at Value (show_int (sint w) @ rest) = Some (Got (JNum w, rest))"
proof -
  obtain c cs where s: "show_int (sint w) = c # cs" and c: "c = CHR ''-'' \<or> is_digit c"
    using show_int_hd [of "sint w"] by blast
  from c have nws: "\<not> json_ws c" and
    ne: "c \<noteq> CHR ''{''" "c \<noteq> CHR ''[''" "c \<noteq> dquote" "c \<noteq> CHR ''n''" "c \<noteq> CHR ''t''"
      "c \<noteq> CHR ''f''"
    by (auto simp: json_ws_def is_digit_def dquote_def)
  have "parse_at Value (c # cs @ rest) = Some (read_number (c # cs @ rest))"
    using nws ne by (simp add: parse_value_eq skip_ws_stop)
  with read_number_show_int [OF assms, of w] s show ?thesis by simp
qed

lemma stringify_hd:
  "\<exists>c cs. stringify gap ind v = c # cs \<and> \<not> json_ws c \<and> c \<noteq> CHR '']''"
proof (cases v)
  case (JNum i)
  obtain c cs where s: "show_int (sint i) = c # cs" and c: "c = CHR ''-'' \<or> is_digit c"
    using show_int_hd [of "sint i"] by blast
  from c have "\<not> json_ws c" "c \<noteq> CHR '']''"
    by (auto simp: json_ws_def is_digit_def)
  with s JNum show ?thesis by simp
next
  case (JStr s)
  then show ?thesis by (simp add: quote_json_def) (simp add: dquote_def)
next
  case (JArr xs)
  then show ?thesis by (simp add: Let_def json_ws_def)
next
  case (JObj kvs)
  then show ?thesis by (simp add: Let_def json_ws_def)
qed (simp_all add: json_ws_def)

lemma key_before_irrefl: "\<not> key_before k k"
  by (simp add: key_before_def split: option.splits)

lemma insert_index_last:
  "(\<And>k'. k' \<in> fst ` set acc \<Longrightarrow> \<exists>j. array_index k' = Some j \<and> j < i) \<Longrightarrow>
   insert_index i k v acc = acc @ [(k, v)]"
proof (induction acc)
  case Nil
  then show ?case by simp
next
  case (Cons p acc)
  obtain k' v' where p: "p = (k', v')" by (cases p)
  from Cons.prems [of k'] p obtain j where j: "array_index k' = Some j" "j < i" by auto
  have "insert_index i k v acc = acc @ [(k, v)]"
    by (rule Cons.IH) (use Cons.prems in auto)
  with j p show ?case by simp
qed

lemma put_prop_snoc:
  assumes "sorted_wrt key_before (map fst (acc @ [(k, v)]))"
  shows "put_prop k v acc = acc @ [(k, v)]"
proof -
  from assms have before: "\<And>k'. k' \<in> fst ` set acc \<Longrightarrow> key_before k' k"
    by (auto simp: sorted_wrt_append)
  then have fresh: "k \<notin> fst ` set acc"
    using key_before_irrefl [of k] by blast
  show ?thesis
  proof (cases "array_index k")
    case None
    with fresh show ?thesis by (simp add: put_prop_def)
  next
    case (Some i)
    have "insert_index i k v acc = acc @ [(k, v)]"
    proof (rule insert_index_last)
      fix k' assume "k' \<in> fst ` set acc"
      then have "key_before k' k" by (rule before)
      with Some show "\<exists>j. array_index k' = Some j \<and> j < i"
        by (auto simp: key_before_def split: option.splits)
    qed
    with fresh Some show ?thesis by (simp add: put_prop_def)
  qed
qed

lemma foldl_put_ordered:
  "sorted_wrt key_before (map fst (acc @ kvs)) \<Longrightarrow>
   foldl (\<lambda>obj (k, w). put_prop k w obj) acc kvs = acc @ kvs"
proof (induction kvs arbitrary: acc)
  case Nil
  then show ?case by simp
next
  case (Cons p kvs)
  obtain k v where p: "p = (k, v)" by (cases p)
  from Cons.prems p have "sorted_wrt key_before (map fst (acc @ [(k, v)]))"
    by (simp add: sorted_wrt_append)
  then have "put_prop k v acc = acc @ [(k, v)]" by (rule put_prop_snoc)
  moreover from Cons.prems p have "sorted_wrt key_before (map fst ((acc @ [(k, v)]) @ kvs))"
    by simp
  ultimately show ?case
    using Cons.IH [of "acc @ [(k, v)]"] p by simp
qed

lemma follow_simps [simp]:
  "follow (CHR '','' # s)" "follow (CHR '']'' # s)" "follow (CHR ''}'' # s)"
  "follow (newline # s)" "follow []"
  by (simp_all add: follow_def)

lemma parse_elems_text:
  assumes pre: "list_all json_ws pre" and post: "list_all json_ws post"
    and elem: "\<And>x rest. x \<in> set xs \<Longrightarrow> follow rest \<Longrightarrow>
                 parse_at Value (T x @ rest) = Some (Got (x, rest))"
    and fpost: "\<And>s. follow (post @ CHR '']'' # s)"
    and ne: "xs \<noteq> []"
  shows "parse_at (Elems acc) (pre @ join (CHR '','' # pre) (map T xs) @ post @ CHR '']'' # rest)
         = Some (Got (JArr (acc @ xs), rest))"
  using elem ne
proof (induction xs arbitrary: acc)
  case Nil
  then show ?case by simp
next
  case (Cons x xs)
  show ?case
  proof (cases "xs = []")
    case True
    have "parse_at Value (pre @ T x @ post @ CHR '']'' # rest)
          = Some (Got (x, post @ CHR '']'' # rest))"
      using Cons.prems(1) [of x "post @ CHR '']'' # rest"] fpost
      by (simp add: parse_value_skip [OF pre])
    then show ?thesis
      using True by (simp add: parse_elems_eq skip_ws_prefix [OF post] skip_ws_stop)
  next
    case False
    let ?tail = "pre @ join (CHR '','' # pre) (map T xs) @ post @ CHR '']'' # rest"
    have x: "parse_at Value (pre @ T x @ CHR '','' # ?tail) = Some (Got (x, CHR '','' # ?tail))"
      using Cons.prems(1) [of x "CHR '','' # ?tail"]
      by (simp add: parse_value_skip [OF pre])
    have ih: "parse_at (Elems (acc @ [x])) ?tail = Some (Got (JArr ((acc @ [x]) @ xs), rest))"
    proof (rule Cons.IH)
      fix y r
      assume "y \<in> set xs" "follow r"
      then show "parse_at Value (T y @ r) = Some (Got (y, r))"
        using Cons.prems(1) [of y r] by simp
    qed (rule False)
    obtain y ys where xs: "xs = y # ys"
      using False by (cases xs) auto
    from x ih show ?thesis
      by (simp add: xs parse_elems_eq [of acc] skip_ws_stop)
  qed
qed

lemma parse_members_text:
  assumes pre: "list_all json_ws pre" and post: "list_all json_ws post"
    and sp: "list_all json_ws sp"
    and elem: "\<And>k v rest. (k, v) \<in> set kvs \<Longrightarrow> follow rest \<Longrightarrow>
                 parse_at Value (T v @ rest) = Some (Got (v, rest))"
    and fpost: "\<And>s. follow (post @ CHR ''}'' # s)"
    and ne: "kvs \<noteq> []"
  shows "parse_at (Members acc)
           (pre @ join (CHR '','' # pre)
                    (map (\<lambda>(k, v). quote_json k @ CHR '':'' # sp @ T v) kvs)
                @ post @ CHR ''}'' # rest)
         = Some (Got (JObj (foldl (\<lambda>obj (k, w). put_prop k w obj) acc kvs), rest))"
  using elem ne
proof (induction kvs arbitrary: acc)
  case Nil
  then show ?case by simp
next
  case (Cons p kvs)
  obtain k v where p: "p = (k, v)" by (cases p)
  have key: "parse_at (Members acc) (pre @ quote_json k @ CHR '':'' # sp @ T v @ R)
             = (case skip_ws R of
                  [] \<Rightarrow> Some Malformed
                | c3 # r4 \<Rightarrow>
                    if c3 = CHR '','' then parse_at (Members (put_prop k v acc)) r4
                    else if c3 = CHR ''}'' then Some (Got (JObj (put_prop k v acc), r4))
                    else Some Malformed)"
    if "follow R" for R
  proof -
    have "parse_at Value (sp @ T v @ R) = Some (Got (v, R))"
      using Cons.prems(1) [of k v R] p that by (simp add: parse_value_skip [OF sp])
    then show ?thesis
      by (simp add: parse_members_skip [OF pre] parse_members_eq [of acc] quote_json_def
            skip_ws_stop str_body_quoted)
  qed
  show ?case
  proof (cases "kvs = []")
    case True
    have "follow (post @ CHR ''}'' # rest)" by (rule fpost)
    from key [OF this] True p show ?thesis
      by (simp add: skip_ws_prefix [OF post] skip_ws_stop)
  next
    case False
    let ?tail = "pre @ join (CHR '','' # pre)
                    (map (\<lambda>(k, v). quote_json k @ CHR '':'' # sp @ T v) kvs)
                @ post @ CHR ''}'' # rest"
    have ih: "parse_at (Members (put_prop k v acc)) ?tail
          = Some (Got (JObj (foldl (\<lambda>obj (k, w). put_prop k w obj) (put_prop k v acc) kvs),
                       rest))"
    proof (rule Cons.IH)
      fix k' v' r
      assume "(k', v') \<in> set kvs" "follow r"
      then show "parse_at Value (T v' @ r) = Some (Got (v', r))"
        using Cons.prems(1) [of k' v' r] by simp
    qed (rule False)
    obtain q qs where kvs: "kvs = q # qs"
      using False by (cases kvs) auto
    have "follow (CHR '','' # ?tail)" by simp
    from key [OF this] ih show ?thesis
      by (simp add: p kvs skip_ws_stop)
  qed
qed

lemma join_hd:
  assumes "xs \<noteq> []"
    and "\<And>x. x \<in> set xs \<Longrightarrow> \<exists>c cs. T x = c # cs \<and> \<not> json_ws c \<and> c \<noteq> e"
  shows "\<exists>c cs. join sep (map T xs) = c # cs \<and> \<not> json_ws c \<and> c \<noteq> e"
proof (cases xs)
  case Nil
  with assms(1) show ?thesis by simp
next
  case (Cons x ys)
  then obtain c cs where "T x = c # cs" "\<not> json_ws c" "c \<noteq> e"
    using assms(2) [of x] by auto
  with Cons show ?thesis by (cases ys) simp_all
qed

lemma skip_ws_to_hd:
  "list_all json_ws pre \<Longrightarrow> \<not> json_ws c \<Longrightarrow> skip_ws (pre @ c # s) = c # s"
  by (simp add: skip_ws_prefix skip_ws_stop)

lemma stringify_arr:
  "xs \<noteq> [] \<Longrightarrow>
   stringify gap ind (JArr xs) =
     CHR ''['' # (if gap = [] then [] else newline # ind @ gap)
     @ join (CHR '','' # (if gap = [] then [] else newline # ind @ gap))
         (map (stringify gap (ind @ gap)) xs)
     @ (if gap = [] then [] else newline # ind) @ '']''"
  by (simp add: Let_def)

lemma stringify_obj:
  "kvs \<noteq> [] \<Longrightarrow>
   stringify gap ind (JObj kvs) =
     CHR ''{'' # (if gap = [] then [] else newline # ind @ gap)
     @ join (CHR '','' # (if gap = [] then [] else newline # ind @ gap))
         (map (\<lambda>(k, v). quote_json k @ CHR '':'' # (if gap = [] then [] else '' '')
                          @ stringify gap (ind @ gap) v) kvs)
     @ (if gap = [] then [] else newline # ind) @ ''}''"
  by (simp add: Let_def)

lemma round_trip_value:
  assumes gap: "list_all json_ws gap"
  shows "finite_json v \<Longrightarrow> in_order v \<Longrightarrow> list_all json_ws ind \<Longrightarrow> follow rest \<Longrightarrow>
         parse_at Value (stringify gap ind v @ rest) = Some (Got (v, rest))"
proof (induction v arbitrary: ind rest)
  case JNull
  show ?case using parse_null [of rest] by simp
next
  case (JBool b)
  show ?case using parse_true [of rest] parse_false [of rest] by (cases b) simp_all
next
  case (JNum i)
  then show ?case by (simp add: parse_number)
next
  case (JInf b)
  then show ?case by simp
next
  case (JStr s)
  then show ?case by (simp add: parse_string)
next
  case (JArr xs)
  show ?case
  proof (cases "xs = []")
    case True
    then show ?thesis
      by (simp add: parse_value_eq skip_ws_stop)
  next
    case False
    let ?pre = "if gap = [] then [] else newline # ind @ gap"
    let ?post = "if gap = [] then [] else newline # ind"
    let ?T = "stringify gap (ind @ gap)"
    let ?J = "join (CHR '','' # ?pre) (map ?T xs)"
    have pre: "list_all json_ws ?pre" and post: "list_all json_ws ?post"
      using gap JArr.prems(3) by simp_all
    have inner: "list_all json_ws (ind @ gap)"
      using gap JArr.prems(3) by simp
    have elem: "parse_at Value (?T x @ r) = Some (Got (x, r))" if "x \<in> set xs" "follow r" for x r
      using JArr.IH [OF that(1) _ _ inner that(2)] JArr.prems(1,2) that(1)
      by (simp add: list_all_iff)
    have fpost: "follow (?post @ CHR '']'' # s)" for s by simp
    obtain c cs where hd: "?J = c # cs" "\<not> json_ws c" "c \<noteq> CHR '']''"
      using join_hd [OF False, of ?T "CHR '']''" "CHR '','' # ?pre"] stringify_hd by blast
    have shape: "stringify gap ind (JArr xs) @ rest
               = CHR ''['' # (?pre @ ?J @ ?post @ CHR '']'' # rest)"
      using stringify_arr [OF False, of gap ind] by simp
    have sk: "skip_ws (?pre @ ?J @ ?post @ CHR '']'' # rest) = c # cs @ ?post @ CHR '']'' # rest"
      using skip_ws_to_hd [OF pre hd(2), of "cs @ ?post @ CHR '']'' # rest"] hd(1) by simp
    have "parse_at Value (CHR ''['' # (?pre @ ?J @ ?post @ CHR '']'' # rest))
          = parse_at (Elems []) (?pre @ ?J @ ?post @ CHR '']'' # rest)"
      by (subst parse_value_eq) (simp add: skip_ws_stop sk hd(3) del: append_Cons)
    also have "\<dots> = Some (Got (JArr ([] @ xs), rest))"
      by (rule parse_elems_text [OF pre post elem fpost False])
    finally show ?thesis unfolding shape by simp
  qed
next
  case (JObj kvs)
  show ?case
  proof (cases "kvs = []")
    case True
    then show ?thesis
      by (simp add: parse_value_eq skip_ws_stop)
  next
    case False
    let ?pre = "if gap = [] then [] else newline # ind @ gap"
    let ?post = "if gap = [] then [] else newline # ind"
    let ?sp = "if gap = [] then [] else '' ''"
    let ?T = "stringify gap (ind @ gap)"
    let ?M = "\<lambda>(k, v). quote_json k @ CHR '':'' # ?sp @ ?T v"
    let ?J = "join (CHR '','' # ?pre) (map ?M kvs)"
    have pre: "list_all json_ws ?pre" and post: "list_all json_ws ?post"
      and sp: "list_all json_ws ?sp"
      using gap JObj.prems(3) by simp_all
    have inner: "list_all json_ws (ind @ gap)"
      using gap JObj.prems(3) by simp
    have elem: "parse_at Value (?T v @ r) = Some (Got (v, r))" if "(k, v) \<in> set kvs" "follow r"
      for k v r
    proof -
      from that(1) JObj.prems(1,2) have "finite_json v" "in_order v"
        by (auto simp: list_all_iff)
      moreover have "v \<in> Basic_BNFs.snds (k, v)" by simp
      ultimately show ?thesis
        using JObj.IH [OF that(1) _ _ _ inner that(2)] by simp
    qed
    have fpost: "follow (?post @ CHR ''}'' # s)" for s by simp
    have mhd: "\<exists>c cs. ?M p = c # cs \<and> \<not> json_ws c \<and> c \<noteq> CHR ''}''" for p
      by (cases p) (simp add: quote_json_def, simp add: dquote_def)
    obtain c cs where hd: "?J = c # cs" "\<not> json_ws c" "c \<noteq> CHR ''}''"
      using join_hd [OF False, of ?M "CHR ''}''" "CHR '','' # ?pre"] mhd by blast
    have shape: "stringify gap ind (JObj kvs) @ rest
               = CHR ''{'' # (?pre @ ?J @ ?post @ CHR ''}'' # rest)"
      using stringify_obj [OF False, of gap ind] by simp
    have sk: "skip_ws (?pre @ ?J @ ?post @ CHR ''}'' # rest) = c # cs @ ?post @ CHR ''}'' # rest"
      using skip_ws_to_hd [OF pre hd(2), of "cs @ ?post @ CHR ''}'' # rest"] hd(1) by simp
    have ord: "foldl (\<lambda>obj (k, w). put_prop k w obj) [] kvs = kvs"
      using foldl_put_ordered [of "[]" kvs] JObj.prems(2) by simp
    have "parse_at Value (CHR ''{'' # (?pre @ ?J @ ?post @ CHR ''}'' # rest))
          = parse_at (Members []) (?pre @ ?J @ ?post @ CHR ''}'' # rest)"
      by (subst parse_value_eq) (simp add: skip_ws_stop sk hd(3) del: append_Cons)
    also have "\<dots> = Some (Got (JObj (foldl (\<lambda>obj (k, w). put_prop k w obj) [] kvs), rest))"
      by (rule parse_members_text [OF pre post sp elem fpost False])
    finally show ?thesis unfolding shape ord by simp
  qed
qed

lemma JSON_parse_stringify:
  assumes "list_all json_ws gap" "finite_json v" "in_order v"
  shows "JSON_parse (stringify gap [] v) = Some (Got v)"
  using round_trip_value [OF assms, of "[]" "[]"]
  by (simp add: JSON_parse_def)



















lemma export_reads_back:
  assumes "currentResults st = Some report" "finite_json report" "in_order report"
  shows "downloads (exportJSON t st)
           = downloads st
             @ [\<lparr>filename = ''kra_invoice_results_'' @ file_stamp t @ ''.json'',
                 mime = ''application/json'',
                 content = stringify ''  '' [] report\<rparr>]
         \<and> JSON_parse (content (last (downloads (exportJSON t st)))) = Some (Got report)"
proof -
  have gap: "list_all json_ws ''  ''" by simp
  have "JSON_parse (stringify ''  '' [] report) = Some (Got report)"
    using gap assms(2,3) by (rule JSON_parse_stringify)
  with assms(1) show ?thesis by (simp add: exportJSON_def)
qed

section \<open>Claims about a batch run\<close>

text \<open>
  C2, as amended. When the payload is not null and its \<open>results\<close> field is absent or
  is not an array, \<open>displayResults\<close> reports it: the message
  \<open>Invalid response format from API\<close> is shown, the list is empty, and the summary
  counts and the results panel are as they were. The payload has been stored all the same:
  the stored report is the merge of the local fields and the payload, and it is what
  \<open>exportJSON\<close> writes afterwards.
\<close>

theorem invalid_shape_reported:
  assumes "parseInvoiceNumbers (invoiceNumbersInput st) = ids" "ids \<noteq> []"
    and "trim (apiUrlInput st) = u" "u \<noteq> []"
    and "net (batch_request u ids) = Resolved r" "ok r" "bodyJson r = Inr data"
    and "data \<noteq> JNull"
    and "\<not> is_array (own_prop data ''results'')"
  shows "displayResults st data =
           (None, st\<lparr>invoiceList := [],
                     apiErrorText := ''Invalid response format from API'',
                     apiErrorShown := True\<rparr>)
         \<and> apiErrorShown (checkInvoices net now st)
         \<and> apiErrorText (checkInvoices net now st) = ''Invalid response format from API''
         \<and> invoiceList (checkInvoices net now st) = []
         \<and> totalCount (checkInvoices net now st) = totalCount st
         \<and> successCount (checkInvoices net now st) = successCount st
         \<and> errorCount (checkInvoices net now st) = errorCount st
         \<and> resultsShown (checkInvoices net now st) = resultsShown st
         \<and> currentResults (checkInvoices net now st)
             = Some (JObj (spread (local_fields now u ids) data))
         \<and> downloads (exportJSON t (checkInvoices net now st))
             = downloads st
               @ [\<lparr>filename = ''kra_invoice_results_'' @ file_stamp t @ ''.json'',
                   mime = ''application/json'',
                   content = stringify ''  '' []
                               (JObj (spread (local_fields now u ids) data))\<rparr>]"
proof -
  note run = checkInvoices_run [OF assms(1-4), of net now]
  have tr: "check_try net now u ids st' =
           displayResults
             (st'\<lparr>requests := requests st' @ [batch_request u ids],
                 currentResults := Some (JObj (spread (local_fields now u ids) data))\<rparr>)
             data" for st'
    using assms(5-7) by (rule check_try_parsed)
  have shape: "displayResults st' data =
           (None, st'\<lparr>invoiceList := [],
                      apiErrorText := ''Invalid response format from API'',
                      apiErrorShown := True\<rparr>)" for st'
    using displayResults_bad_shape [OF assms(9), of st'] assms(8) by simp
  have after: "checkInvoices net now st =
           st\<lparr>spinnerShown := False, checkDisabled := False, apiErrorShown := True,
              requests := requests st @ [batch_request u ids],
              currentResults := Some (JObj (spread (local_fields now u ids) data)),
              invoiceList := [],
              apiErrorText := ''Invalid response format from API''\<rparr>"
    by (simp add: run tr shape Let_def)
  show ?thesis
    unfolding after by (simp add: shape exportJSON_def del: stringify.simps)
qed

theorem invalid_shape_reported_witness:
  "JObj [] \<noteq> JNull \<and> \<not> is_array (own_prop (JObj []) ''results'')
   \<and> apiErrorShown (checkInvoices (answering 200 ''{}'' (Inr (JObj []))) sample_stamp sample_page)
   \<and> apiErrorText (checkInvoices (answering 200 ''{}'' (Inr (JObj []))) sample_stamp sample_page)
       = ''Invalid response format from API''
   \<and> totalCount (checkInvoices (answering 200 ''{}'' (Inr (JObj []))) sample_stamp sample_page) = 0
   \<and> resultsShown (checkInvoices (answering 200 ''{}'' (Inr (JObj []))) sample_stamp sample_page)
       = False
   \<and> currentResults (checkInvoices (answering 200 ''{}'' (Inr (JObj []))) sample_stamp
                         sample_page)
       = Some (JObj (spread (local_fields sample_stamp LOCAL_API_URL [''INV1'']) (JObj [])))"
proof -
  let ?r = "\<lparr>status = 200, bodyText = ''{}'', bodyJson = Inr (JObj [])\<rparr>"
  have n: "answering 200 ''{}'' (Inr (JObj [])) (batch_request LOCAL_API_URL [''INV1''])
           = Resolved ?r"
    by (simp add: answering_def)
  have k: "ok ?r" by (simp add: ok_def)
  have b: "bodyJson ?r = Inr (JObj [])" by simp
  have nn: "JObj [] \<noteq> JNull" by simp
  have s: "\<not> is_array (own_prop (JObj []) ''results'')" by (simp add: own_prop_def)
  have i: "[''INV1''] \<noteq> []" by simp
  show ?thesis
    using invalid_shape_reported [where net = "answering 200 ''{}'' (Inr (JObj []))"
        and now = sample_stamp, OF sample_ids i sample_url LOCAL_nonempty n k b nn s] s
    by (simp add: sample_page_def fresh_page_def)
qed

text \<open>
  C2 as stated fails for the payload \<open>{}\<close>: the invalid format is reported, and yet a
  report without results has been stored, which \<open>exportJSON\<close> then writes out. For
  the payload null the read of \<open>results\<close> throws a TypeError before the check of the
  shape, so that the message shown is the one of the TypeError.
\<close>

theorem invalid_shape_counterexample:
  "apiErrorText (checkInvoices (answering 200 ''{}'' (Inr (JObj []))) sample_stamp sample_page)
     = ''Invalid response format from API''
   \<and> downloads (exportJSON sample_stamp
         (checkInvoices (answering 200 ''{}'' (Inr (JObj []))) sample_stamp sample_page))
       = [\<lparr>filename = ''kra_invoice_results_2025-01-01T00-00-00-000Z.json'',
           mime = ''application/json'',
           content = stringify ''  '' []
                       (JObj [(''timestamp'', JStr sample_stamp),
                              (''apiUrl'', JStr LOCAL_API_URL),
                              (''invoices_requested'', JArr [JStr ''INV1''])])\<rparr>]
   \<and> \<not> is_array (own_prop JNull ''results'')
   \<and> fst (displayResults sample_page JNull) = Some (TypeError (cannot_read ''results''))
   \<and> apiErrorText (checkInvoices (answering 200 ''null'' (Inr JNull)) sample_stamp sample_page)
       = ''Error: '' @ cannot_read ''results''"
proof -
  have a: "checkInvoices (answering 200 ''{}'' (Inr (JObj []))) sample_stamp sample_page =
     sample_page\<lparr>currentResults := Some (JObj [(''timestamp'', JStr sample_stamp),
                     (''apiUrl'', JStr LOCAL_API_URL),
                     (''invoices_requested'', JArr [JStr ''INV1''])]),
           apiErrorText := ''Invalid response format from API'', apiErrorShown := True,
           requests := [batch_request LOCAL_API_URL [''INV1'']]\<rparr>"
    by (simp add: checkInvoices_def sample_ids sample_url LOCAL_nonempty Let_def check_try_def
          answering_def ok_def displayResults_def get_prop_def own_prop_def spread_def
          local_fields_def)
       (simp add: sample_page_def fresh_page_def)
  have b: "apiErrorText (checkInvoices (answering 200 ''null'' (Inr JNull)) sample_stamp
                           sample_page)
           = ''Error: '' @ cannot_read ''results''"
    by (simp add: checkInvoices_def sample_ids sample_url LOCAL_nonempty Let_def check_try_def
          answering_def ok_def displayResults_def get_prop_def)
  have c: "fst (displayResults sample_page JNull) = Some (TypeError (cannot_read ''results''))"
    by (simp add: displayResults_def get_prop_def)
  have d: "file_stamp sample_stamp = ''2025-01-01T00-00-00-000Z''"
    by (simp add: file_stamp_def sample_stamp_def)
  have e: "downloads sample_page = []"
    by (simp add: sample_page_def fresh_page_def)
  show ?thesis
    unfolding a using b c d e
    by (simp add: exportJSON_def del: stringify.simps)
qed

text \<open>
  C3, as amended. The stored report changes only in a run whose response has a success
  status and a body that parses; it is then the merge of the local fields and the payload,
  stored before \<open>displayResults\<close> checks the shape. A run without identifiers or
  endpoint, a rejected request, a non-success status and an unparsable body leave the stored
  report as it was, and neither export modifies it.
\<close>

theorem stored_report:
  "currentResults (checkInvoices net now st) =
     (let ids = parseInvoiceNumbers (invoiceNumbersInput st);
          u = trim (apiUrlInput st)
      in if ids = [] \<or> u = [] then currentResults st
         else (case net (batch_request u ids) of
                 Rejected e \<Rightarrow> currentResults st
               | Resolved r \<Rightarrow>
                   if ok r
                   then (case bodyJson r of
                           Inl e \<Rightarrow> currentResults st
                         | Inr data \<Rightarrow> Some (JObj (spread (local_fields now u ids) data)))
                   else currentResults st))
   \<and> currentResults (exportJSON t st) = currentResults st
   \<and> currentResults (snd (exportCSV t st)) = currentResults st"
  using currentResults_after_run [of net now st] exportJSON_currentResults [of t st]
    exportCSV_currentResults [of t st]
  by (simp only: simp_thms)

text \<open>
  C3 as stated fails for the payload \<open>{}\<close>: the shape check reports the invalid
  format, and the stored report has changed from null to the merged object.
\<close>

theorem stored_report_counterexample:
  "apiErrorShown (checkInvoices (answering 200 ''{}'' (Inr (JObj []))) sample_stamp sample_page)
   \<and> apiErrorText (checkInvoices (answering 200 ''{}'' (Inr (JObj []))) sample_stamp sample_page)
       = ''Invalid response format from API''
   \<and> currentResults sample_page = None
   \<and> currentResults (checkInvoices (answering 200 ''{}'' (Inr (JObj []))) sample_stamp sample_page)
       = Some (JObj [(''timestamp'', JStr sample_stamp),
                     (''apiUrl'', JStr LOCAL_API_URL),
                     (''invoices_requested'', JArr [JStr ''INV1''])])"
proof -
  have a: "checkInvoices (answering 200 ''{}'' (Inr (JObj []))) sample_stamp sample_page =
     sample_page\<lparr>currentResults := Some (JObj [(''timestamp'', JStr sample_stamp),
                     (''apiUrl'', JStr LOCAL_API_URL),
                     (''invoices_requested'', JArr [JStr ''INV1''])]),
           apiErrorText := ''Invalid response format from API'', apiErrorShown := True,
           requests := [batch_request LOCAL_API_URL [''INV1'']]\<rparr>"
    by (simp add: checkInvoices_def sample_ids sample_url LOCAL_nonempty Let_def check_try_def
          answering_def ok_def displayResults_def get_prop_def own_prop_def spread_def
          local_fields_def)
       (simp add: sample_page_def fresh_page_def)
  show ?thesis unfolding a by (simp add: sample_page_def fresh_page_def)
qed

text \<open>
  C5. The summary shows the length of \<open>results\<close> as the total, the number of elements
  whose status is \<open>success\<close> as the successes, and the difference as the errors,
  whatever the number of requested identifiers: three results, two of them successes, give
  3, 2 and 1 with one identifier requested. A null element is where the code departs from
  this: the total is written, the scan for successes then throws on the null element, and
  the counts of successes and errors stay as the run before left them. After the run with
  three results, a payload of one success and a null leaves the summary at total 2,
  successes 2, errors 1, beside the message of the TypeError.
\<close>

theorem summary_null_element:
  "totalCount (checkInvoices (answering 200 [] (Inr three_results)) sample_stamp sample_page) = 3
   \<and> successCount (checkInvoices (answering 200 [] (Inr three_results)) sample_stamp sample_page)
       = 2
   \<and> errorCount (checkInvoices (answering 200 [] (Inr three_results)) sample_stamp sample_page)
       = 1
   \<and> totalCount (checkInvoices (answering 200 [] (Inr null_element_payload)) sample_stamp
         (checkInvoices (answering 200 [] (Inr three_results)) sample_stamp sample_page)) = 2
   \<and> successCount (checkInvoices (answering 200 [] (Inr null_element_payload)) sample_stamp
         (checkInvoices (answering 200 [] (Inr three_results)) sample_stamp sample_page)) = 2
   \<and> errorCount (checkInvoices (answering 200 [] (Inr null_element_payload)) sample_stamp
         (checkInvoices (answering 200 [] (Inr three_results)) sample_stamp sample_page)) = 1
   \<and> apiErrorShown (checkInvoices (answering 200 [] (Inr null_element_payload)) sample_stamp
         (checkInvoices (answering 200 [] (Inr three_results)) sample_stamp sample_page))
   \<and> apiErrorText (checkInvoices (answering 200 [] (Inr null_element_payload)) sample_stamp
         (checkInvoices (answering 200 [] (Inr three_results)) sample_stamp sample_page))
       = ''Error: '' @ cannot_read ''status''
   \<and> totalCount (checkInvoices (answering 200 [] (Inr null_element_payload)) sample_stamp
         sample_page) = 2
   \<and> successCount (checkInvoices (answering 200 [] (Inr null_element_payload)) sample_stamp
         sample_page) = 0
   \<and> errorCount (checkInvoices (answering 200 [] (Inr null_element_payload)) sample_stamp
         sample_page) = 0"
proof -
  let ?three = "checkInvoices (answering 200 [] (Inr three_results)) sample_stamp sample_page"
  let ?after = "checkInvoices (answering 200 [] (Inr null_element_payload)) sample_stamp ?three"
  let ?fresh = "checkInvoices (answering 200 [] (Inr null_element_payload)) sample_stamp
                  sample_page"
  have ids: "parseInvoiceNumbers (invoiceNumbersInput st) = [''INV1'']"
    and u: "trim (apiUrlInput st) = LOCAL_API_URL"
    if "invoiceNumbersInput st = ''INV1''" "apiUrlInput st = LOCAL_API_URL" for st
    using that sample_ids sample_url by (simp_all add: sample_page_def fresh_page_def)
  have inputs: "invoiceNumbersInput (checkInvoices net now st) = invoiceNumbersInput st"
    "apiUrlInput (checkInvoices net now st) = apiUrlInput st" for net now st
    by (simp_all add: checkInvoices_def check_try_def displayResults_def Let_def
          split: prod.splits option.splits sum.splits fetch_outcome.splits)
  have typed: "invoiceNumbersInput sample_page = ''INV1''" "apiUrlInput sample_page = LOCAL_API_URL"
    by (simp_all add: sample_page_def fresh_page_def)
  have typed': "invoiceNumbersInput ?three = ''INV1''" "apiUrlInput ?three = LOCAL_API_URL"
    by (simp_all add: inputs typed)
  note run = checkInvoices_run [OF _ _ _ LOCAL_nonempty]
  have ne: "[''INV1''] \<noteq> []" by simp
  have net: "answering 200 [] (Inr data) (batch_request LOCAL_API_URL [''INV1''])
             = Resolved \<lparr>status = 200, bodyText = [], bodyJson = Inr data\<rparr>" for data
    by (simp add: answering_def)
  have k: "ok \<lparr>status = 200, bodyText = [], bodyJson = Inr data\<rparr>" for data
    by (simp add: ok_def)
  have tr: "check_try (answering 200 [] (Inr data)) sample_stamp LOCAL_API_URL [''INV1''] st =
            displayResults
              (st\<lparr>requests := requests st @ [batch_request LOCAL_API_URL [''INV1'']],
                  currentResults :=
                    Some (JObj (spread (local_fields sample_stamp LOCAL_API_URL [''INV1''])
                                  data))\<rparr>)
              data" for data st
    by (rule check_try_parsed [where net = "answering 200 [] (Inr data)", OF net k]) simp
  have g3: "get_prop three_results ''results''
            = Inr (Some (JArr (elems (own_prop three_results ''results''))))"
    by (simp add: three_results_def get_prop_def own_prop_def)
  have nn3: "JNull \<notin> set (elems (own_prop three_results ''results''))"
    by (simp add: three_results_def own_prop_def)
  have c3: "int (length (elems (own_prop three_results ''results''))) = 3"
    "int (length (filter is_success (elems (own_prop three_results ''results'')))) = 2"
    by (simp_all add: three_results_def own_prop_def is_success_def)
  note counts3 = displayResults_counts [OF g3 nn3, unfolded c3]
  have fst3: "fst (displayResults st three_results) = None" for st
    by (simp add: displayResults_def three_results_def get_prop_def own_prop_def
          status_success_def render_item_def interp_def detail_row_def field_names_def
          or_else_def Let_def)
  have three: "totalCount ?three = 3" "successCount ?three = 2" "errorCount ?three = 1"
    using counts3 fst3
    by (simp_all add: run [OF ids [OF typed] ne u [OF typed]] Let_def tr)
  have thrown: "displayResults st null_element_payload
                = (Some (TypeError (cannot_read ''status'')),
                   st\<lparr>invoiceList := [], totalCount := 2\<rparr>)" for st
    by (simp add: displayResults_def null_element_payload_def status_success_def get_prop_def
          own_prop_def)
  have after: "totalCount ?after = 2" "successCount ?after = 2" "errorCount ?after = 1"
    "apiErrorShown ?after" "apiErrorText ?after = ''Error: '' @ cannot_read ''status''"
    using three
    by (simp_all add: run [OF ids [OF typed'] ne u [OF typed']] Let_def tr thrown)
  have fresh: "totalCount ?fresh = 2" "successCount ?fresh = 0" "errorCount ?fresh = 0"
    by (simp_all add: run [OF ids [OF typed] ne u [OF typed]] Let_def tr thrown)
       (simp_all add: sample_page_def fresh_page_def)
  from three after fresh show ?thesis by (intro conjI)
qed

text \<open>
  C8. When the response has a status outside 200 to 299, the batch run throws an error
  whose message holds the status code and the body text, shows it, leaves the stored report
  alone and has called \<open>fetch\<close> exactly once; the command-line \<open>checkInvoice\<close>
  likewise returns an error result with the code and the body, after one request.
\<close>

theorem http_error_reported:
  assumes "\<not> ok r"
  shows "(net (batch_request u ids) = Resolved r \<longrightarrow>
            fst (check_try net now u ids st)
              = Some (Error (''API returned status '' @ show_nat (status r) @ '': ''
                             @ bodyText r))
            \<and> requests (snd (check_try net now u ids st)) = requests st @ [batch_request u ids]
            \<and> currentResults (snd (check_try net now u ids st)) = currentResults st)
       \<and> (parseInvoiceNumbers (invoiceNumbersInput st) = ids \<and> ids \<noteq> []
            \<and> trim (apiUrlInput st) = u \<and> u \<noteq> []
            \<and> net (batch_request u ids) = Resolved r \<longrightarrow>
            apiErrorShown (checkInvoices net now st)
            \<and> apiErrorText (checkInvoices net now st)
                = ''Error: API returned status '' @ show_nat (status r) @ '': '' @ bodyText r
            \<and> requests (checkInvoices net now st) = requests st @ [batch_request u ids]
            \<and> currentResults (checkInvoices net now st) = currentResults st)
       \<and> (net (single_request n) = Resolved r \<longrightarrow>
            checkInvoice net n log
              = (Some (Some (JObj [(''status'', JStr ''error''),
                                   (''error'', JStr (''API error ('' @ show_nat (status r)
                                                     @ ''): '' @ bodyText r))])),
                 log @ [single_request n]))"
proof (intro conjI impI)
  assume n: "net (batch_request u ids) = Resolved r"
  with assms show "fst (check_try net now u ids st)
              = Some (Error (''API returned status '' @ show_nat (status r) @ '': ''
                             @ bodyText r))"
    by (simp add: check_try_def Let_def)
  from n assms show "requests (snd (check_try net now u ids st))
                     = requests st @ [batch_request u ids]"
    by (simp add: check_try_def Let_def)
  from n assms show "currentResults (snd (check_try net now u ids st)) = currentResults st"
    by (simp add: check_try_def Let_def)
next
  assume a: "parseInvoiceNumbers (invoiceNumbersInput st) = ids \<and> ids \<noteq> []
            \<and> trim (apiUrlInput st) = u \<and> u \<noteq> []
            \<and> net (batch_request u ids) = Resolved r"
  then have run: "checkInvoices net now st =
           (let st1 = st\<lparr>spinnerShown := True, checkDisabled := True, apiErrorShown := False\<rparr>;
                res = check_try net now u ids st1;
                st3 = (case fst res of
                         None \<Rightarrow> snd res
                       | Some error \<Rightarrow>
                           (snd res)\<lparr>apiErrorText := ''Error: '' @ message error,
                                     apiErrorShown := True\<rparr>)
            in st3\<lparr>spinnerShown := False, checkDisabled := False\<rparr>)"
    by (intro checkInvoices_run) simp_all
  have tr: "check_try net now u ids st' =
              (Some (Error (''API returned status '' @ show_nat (status r) @ '': ''
                             @ bodyText r)),
               st'\<lparr>requests := requests st' @ [batch_request u ids]\<rparr>)" for st'
    using a assms by (simp add: check_try_def Let_def)
  show "apiErrorShown (checkInvoices net now st)"
    by (simp add: run tr Let_def)
  show "apiErrorText (checkInvoices net now st)
                = ''Error: API returned status '' @ show_nat (status r) @ '': '' @ bodyText r"
    by (simp add: run tr Let_def)
  show "requests (checkInvoices net now st) = requests st @ [batch_request u ids]"
    by (simp add: run tr Let_def)
  show "currentResults (checkInvoices net now st) = currentResults st"
    by (simp add: run tr Let_def)
next
  assume "net (single_request n) = Resolved r"
  with assms show "checkInvoice net n log
              = (Some (Some (JObj [(''status'', JStr ''error''),
                                   (''error'', JStr (''API error ('' @ show_nat (status r)
                                                     @ ''): '' @ bodyText r))])),
                 log @ [single_request n])"
    by (simp add: checkInvoice_def Let_def)
qed

theorem http_error_reported_witness:
  "\<not> ok \<lparr>status = 500, bodyText = ''Internal Server Error'', bodyJson = Inl (SyntaxError [])\<rparr>
   \<and> apiErrorShown (checkInvoices (answering 500 ''Internal Server Error'' (Inl (SyntaxError [])))
                       sample_stamp sample_page)
   \<and> apiErrorText (checkInvoices (answering 500 ''Internal Server Error'' (Inl (SyntaxError [])))
                      sample_stamp sample_page)
       = ''Error: API returned status 500: Internal Server Error''
   \<and> length (requests (checkInvoices (answering 500 ''Internal Server Error''
                                         (Inl (SyntaxError []))) sample_stamp sample_page)) = 1
   \<and> fst (checkInvoice (answering 500 ''Internal Server Error'' (Inl (SyntaxError [])))
                       ''INV1'' [])
       = Some (Some (JObj [(''status'', JStr ''error''),
                           (''error'', JStr ''API error (500): Internal Server Error'')]))
   \<and> length (snd (checkInvoice (answering 500 ''Internal Server Error'' (Inl (SyntaxError [])))
                       ''INV1'' [])) = 1"
proof -
  let ?r = "\<lparr>status = 500, bodyText = ''Internal Server Error'',
             bodyJson = Inl (SyntaxError [])\<rparr>"
  let ?net = "answering 500 ''Internal Server Error'' (Inl (SyntaxError []))"
  have k: "\<not> ok ?r" by (simp add: ok_def)
  have n: "?net req = Resolved ?r" for req
    by (simp add: answering_def)
  have s: "show_nat 500 = ''500''" by code_simp
  have p: "requests sample_page = []" by (simp add: sample_page_def fresh_page_def)
  show ?thesis
    using http_error_reported [where net = ?net and now = sample_stamp and st = sample_page
        and u = LOCAL_API_URL and ids = "[''INV1'']" and n = "''INV1''" and log = "[]", OF k]
      k n sample_ids sample_url LOCAL_nonempty
    by (simp add: s p)
qed

text \<open>
  C10. After a run whose response parses, the stored report is the payload's top-level
  properties merged over \<open>timestamp\<close>, \<open>apiUrl\<close> and \<open>invoices_requested\<close>: the
  value of every key is the payload's when the payload has the key, the local one
  otherwise; \<open>exportJSON\<close> serializes exactly this object.
\<close>

theorem merge_precedence:
  assumes "parseInvoiceNumbers (invoiceNumbersInput st) = ids" "ids \<noteq> []"
    and "trim (apiUrlInput st) = u" "u \<noteq> []"
    and "net (batch_request u ids) = Resolved r" "ok r" "bodyJson r = Inr data"
  shows "currentResults (checkInvoices net now st)
           = Some (JObj (spread (local_fields now u ids) data))
         \<and> own_prop (JObj (spread (local_fields now u ids) data)) k
             = (case map_of (own_props data) k of
                  Some w \<Rightarrow> Some w
                | None \<Rightarrow> map_of (local_fields now u ids) k)
         \<and> (case data of
              JObj kvs \<Rightarrow>
                own_prop (JObj (spread (local_fields now u ids) data)) k
                  = (case map_of kvs k of
                       Some w \<Rightarrow> Some w
                     | None \<Rightarrow> map_of (local_fields now u ids) k)
            | _ \<Rightarrow> True)
         \<and> downloads (exportJSON t (checkInvoices net now st))
             = downloads (checkInvoices net now st)
               @ [\<lparr>filename = ''kra_invoice_results_'' @ file_stamp t @ ''.json'',
                   mime = ''application/json'',
                   content = stringify ''  '' []
                               (JObj (spread (local_fields now u ids) data))\<rparr>]"
proof -
  have "ids = [] \<or> u = [] \<longleftrightarrow> False" using assms by simp
  with currentResults_after_run [of net now st] assms
  have cur: "currentResults (checkInvoices net now st)
           = Some (JObj (spread (local_fields now u ids) data))"
    by (simp add: Let_def)
  have look: "own_prop (JObj (spread (local_fields now u ids) data)) k
             = (case map_of (own_props data) k of
                  Some w \<Rightarrow> Some w
                | None \<Rightarrow> map_of (local_fields now u ids) k)" for k
    by (simp add: own_prop_def map_of_spread)
  have obj: "(case data of
              JObj kvs \<Rightarrow>
                own_prop (JObj (spread (local_fields now u ids) data)) k
                  = (case map_of kvs k of
                       Some w \<Rightarrow> Some w
                     | None \<Rightarrow> map_of (local_fields now u ids) k)
            | _ \<Rightarrow> True)"
    using look [of k] by (cases data) (simp_all add: map_of_clearjunk)
  show ?thesis
    using cur look [of k] obj
    by (simp add: exportJSON_def split: option.splits)
qed

theorem merge_precedence_witness:
  "currentResults (checkInvoices (answering 200 [] (Inr overriding_payload)) sample_stamp
                     sample_page)
     = Some (JObj [(''timestamp'', JStr ''1999-12-31''),
                   (''apiUrl'', JStr LOCAL_API_URL),
                   (''invoices_requested'', JArr [JStr ''INV1'']),
                   (''results'', JArr [])])
   \<and> own_prop (JObj (spread (local_fields sample_stamp LOCAL_API_URL [''INV1''])
                        overriding_payload)) ''timestamp''
       = Some (JStr ''1999-12-31'')
   \<and> content (last (downloads (exportJSON sample_stamp
         (checkInvoices (answering 200 [] (Inr overriding_payload)) sample_stamp sample_page))))
       = stringify ''  '' []
           (JObj [(''timestamp'', JStr ''1999-12-31''),
                  (''apiUrl'', JStr LOCAL_API_URL),
                  (''invoices_requested'', JArr [JStr ''INV1'']),
                  (''results'', JArr [])])"
proof -
  let ?r = "\<lparr>status = 200, bodyText = [], bodyJson = Inr overriding_payload\<rparr>"
  have n: "answering 200 [] (Inr overriding_payload) (batch_request LOCAL_API_URL [''INV1''])
           = Resolved ?r"
    by (simp add: answering_def)
  have k: "ok ?r" by (simp add: ok_def)
  have b: "bodyJson ?r = Inr overriding_payload" by simp
  have i: "[''INV1''] \<noteq> []" by simp
  have sp: "spread (local_fields sample_stamp LOCAL_API_URL [''INV1'']) overriding_payload
            = [(''timestamp'', JStr ''1999-12-31''),
               (''apiUrl'', JStr LOCAL_API_URL),
               (''invoices_requested'', JArr [JStr ''INV1'']),
               (''results'', JArr [])]"
    by (simp add: spread_def local_fields_def overriding_payload_def put_prop_def
          array_index_def is_digit_def AList.clearjunk.simps AList.delete_eq)
  note m = merge_precedence [where net = "answering 200 [] (Inr overriding_payload)"
        and now = sample_stamp and k = "''timestamp''" and t = sample_stamp,
        OF sample_ids i sample_url LOCAL_nonempty n k b]
  note c1 = m [THEN conjunct1]
  note c4 = m [THEN conjunct2, THEN conjunct2, THEN conjunct2]
  show ?thesis
    unfolding c1 c4 sp by (simp add: own_prop_def del: stringify.simps)
qed

section \<open>Claims about the exports and the probe\<close>

text \<open>
  C1, as amended. When every result of the stored report can be printed as a row (the
  result is not null, and none of the ten values printed for it is an object with a
  property \<open>toString\<close> of its own, or an array that holds one), \<open>exportCSV\<close>
  writes the header line and, for each result, one line of ten cells. The cells of Invoice
  Number, Status and Error and of the six data columns after Control Unit Invoice Number
  hold the text of the value, unchanged, between two quote characters (the invoice number
  after an apostrophe); no quote character inside a value is doubled, so such a cell is the
  properly quoted form of its value exactly when the value holds no quote character.
\<close>

theorem csv_cells_wrapped:
  assumes "currentResults st = Some cur" and "own_prop cur ''results'' = Some (JArr rs)"
    and "list_all row_prints rs"
  shows "exportCSV t st =
           (None, st\<lparr>downloads := downloads st @
                    [\<lparr>filename = ''kra_invoice_results_'' @ file_stamp t @ ''.csv'',
                      mime = ''text/csv'',
                      content = join '','' columns @ [newline]
                                @ concat (map (\<lambda>r. join '','' (row_cells r) @ [newline]) rs)\<rparr>]\<rparr>)
         \<and> (\<forall>r\<in>set rs.
                csv_row r = Inr (row_cells r) \<and> length (row_cells r) = 10
                \<and> (\<forall>i<10. interp (cell_values r ! i) = Inr (text_of (cell_values r ! i)))
                \<and> row_cells r ! 0
                    = [dquote, apostrophe] @ text_of (cell_values r ! 0) @ [dquote]
                \<and> (\<forall>i\<in>{1, 2, 4, 5, 6, 7, 8, 9}.
                       row_cells r ! i = [dquote] @ text_of (cell_values r ! i) @ [dquote]
                       \<and> (row_cells r ! i = csv_quote (text_of (cell_values r ! i)))
                           = (dquote \<notin> set (text_of (cell_values r ! i)))))"
proof
  show "exportCSV t st =
           (None, st\<lparr>downloads := downloads st @
                    [\<lparr>filename = ''kra_invoice_results_'' @ file_stamp t @ ''.csv'',
                      mime = ''text/csv'',
                      content = join '','' columns @ [newline]
                                @ concat (map (\<lambda>r. join '','' (row_cells r) @ [newline]) rs)\<rparr>]\<rparr>)"
    using assms by (rule exportCSV_prints)
next
  show "\<forall>r\<in>set rs.
                csv_row r = Inr (row_cells r) \<and> length (row_cells r) = 10
                \<and> (\<forall>i<10. interp (cell_values r ! i) = Inr (text_of (cell_values r ! i)))
                \<and> row_cells r ! 0
                    = [dquote, apostrophe] @ text_of (cell_values r ! 0) @ [dquote]
                \<and> (\<forall>i\<in>{1, 2, 4, 5, 6, 7, 8, 9}.
                       row_cells r ! i = [dquote] @ text_of (cell_values r ! i) @ [dquote]
                       \<and> (row_cells r ! i = csv_quote (text_of (cell_values r ! i)))
                           = (dquote \<notin> set (text_of (cell_values r ! i))))"
  proof
    fix r assume "r \<in> set rs"
    with assms(3) have p: "row_prints r" by (simp add: list_all_iff)
    then have built: "csv_row r = Inr (row_cells r)" by (rule csv_row_cells)
    have cells: "row_cells r =
         [[dquote, apostrophe] @ text_of (cell_values r ! 0) @ [dquote],
          [dquote] @ text_of (cell_values r ! 1) @ [dquote],
          [dquote] @ text_of (cell_values r ! 2) @ [dquote],
          [apostrophe] @ text_of (cell_values r ! 3),
          [dquote] @ text_of (cell_values r ! 4) @ [dquote],
          [dquote] @ text_of (cell_values r ! 5) @ [dquote],
          [dquote] @ text_of (cell_values r ! 6) @ [dquote],
          [dquote] @ text_of (cell_values r ! 7) @ [dquote],
          [dquote] @ text_of (cell_values r ! 8) @ [dquote],
          [dquote] @ text_of (cell_values r ! 9) @ [dquote]]"
      using csv_row_prints [OF p] by (simp add: row_cells_def)
    have len: "length (row_cells r) = 10" unfolding cells by simp
    have texts: "\<forall>i<10. interp (cell_values r ! i) = Inr (text_of (cell_values r ! i))"
    proof (intro allI impI)
      fix i :: nat assume "i < 10"
      with p have "prints_opt (cell_values r ! i)"
        by (simp add: row_prints_def list_all_length length_cell_values)
      then show "interp (cell_values r ! i) = Inr (text_of (cell_values r ! i))"
        by (rule interp_text_of)
    qed
    have first: "row_cells r ! 0
                 = [dquote, apostrophe] @ text_of (cell_values r ! 0) @ [dquote]"
      by (subst cells) simp
    have others: "\<forall>i\<in>{1, 2, 4, 5, 6, 7, 8, 9}.
           row_cells r ! i = [dquote] @ text_of (cell_values r ! i) @ [dquote]
           \<and> (row_cells r ! i = csv_quote (text_of (cell_values r ! i)))
               = (dquote \<notin> set (text_of (cell_values r ! i)))"
    proof
      fix i :: nat assume i: "i \<in> {1, 2, 4, 5, 6, 7, 8, 9}"
      have c: "row_cells r ! i = [dquote] @ text_of (cell_values r ! i) @ [dquote]"
        using i by (subst cells) auto
      have "(row_cells r ! i = csv_quote (text_of (cell_values r ! i)))
            = (csv_quote (text_of (cell_values r ! i))
                 = [dquote] @ text_of (cell_values r ! i) @ [dquote])"
        unfolding c by (rule eq_commute)
      also have "\<dots> = (dquote \<notin> set (text_of (cell_values r ! i)))"
        by (rule csv_quote_wraps)
      finally show "row_cells r ! i = [dquote] @ text_of (cell_values r ! i) @ [dquote]
           \<and> (row_cells r ! i = csv_quote (text_of (cell_values r ! i)))
               = (dquote \<notin> set (text_of (cell_values r ! i)))"
        using c by (intro conjI)
    qed
    from built len texts first others
    show "csv_row r = Inr (row_cells r) \<and> length (row_cells r) = 10
                \<and> (\<forall>i<10. interp (cell_values r ! i) = Inr (text_of (cell_values r ! i)))
                \<and> row_cells r ! 0
                    = [dquote, apostrophe] @ text_of (cell_values r ! 0) @ [dquote]
                \<and> (\<forall>i\<in>{1, 2, 4, 5, 6, 7, 8, 9}.
                       row_cells r ! i = [dquote] @ text_of (cell_values r ! i) @ [dquote]
                       \<and> (row_cells r ! i = csv_quote (text_of (cell_values r ! i)))
                           = (dquote \<notin> set (text_of (cell_values r ! i))))"
      by (intro conjI)
  qed
qed

theorem csv_cells_wrapped_witness:
  "currentResults exported_page
     = Some (JObj [(''timestamp'', JStr sample_stamp),
                   (''apiUrl'', JStr LOCAL_API_URL),
                   (''invoices_requested'', JArr [JStr ''INV1'']),
                   (''results'', JArr [quoted_supplier])])
   \<and> list_all row_prints [quoted_supplier]
   \<and> fst (exportCSV sample_stamp exported_page) = None
   \<and> length (row_cells quoted_supplier) = 10
   \<and> row_cells quoted_supplier ! 1 = [dquote] @ ''success'' @ [dquote]
   \<and> row_cells quoted_supplier ! 5 = csv_quote []
   \<and> row_cells quoted_supplier ! 9 = [dquote] @ ''A'' @ [dquote] @ ''B'' @ [dquote]"
proof -
  have h1: "currentResults exported_page
            = Some (JObj [(''timestamp'', JStr sample_stamp),
                          (''apiUrl'', JStr LOCAL_API_URL),
                          (''invoices_requested'', JArr [JStr ''INV1'']),
                          (''results'', JArr [quoted_supplier])])"
    by code_simp
  have h2: "own_prop (JObj [(''timestamp'', JStr sample_stamp),
                            (''apiUrl'', JStr LOCAL_API_URL),
                            (''invoices_requested'', JArr [JStr ''INV1'']),
                            (''results'', JArr [quoted_supplier])]) ''results''
            = Some (JArr [quoted_supplier])"
    by (simp add: own_prop_def)
  have h3: "list_all row_prints [quoted_supplier]"
    by (simp add: row_prints_def cell_values_def columns_def prints_opt_def data_field_def
          or_else_def own_prop_def quoted_supplier_def)
  have t1: "text_of (cell_values quoted_supplier ! 1) = ''success''"
    unfolding cell_values_nth
    by (simp add: text_of_def interp_def own_prop_def quoted_supplier_def)
  have t5: "text_of (cell_values quoted_supplier ! 5) = []"
    unfolding cell_values_nth
    by (simp add: text_of_def interp_def own_prop_def quoted_supplier_def
          data_field_def or_else_def)
  have t9: "text_of (cell_values quoted_supplier ! 9) = ''A'' @ [dquote] @ ''B''"
    unfolding cell_values_nth
    by (simp add: text_of_def interp_def own_prop_def quoted_supplier_def
          data_field_def or_else_def)
  note m = csv_cells_wrapped [OF h1 h2 h3, of sample_stamp]
  have e: "fst (exportCSV sample_stamp exported_page) = None"
    using m [THEN conjunct1] by simp
  have q: "quoted_supplier \<in> set [quoted_supplier]" by simp
  note row = m [THEN conjunct2, THEN bspec, OF q]
  have len: "length (row_cells quoted_supplier) = 10"
    using row by blast
  have rest: "\<forall>i\<in>{1, 2, 4, 5, 6, 7, 8, 9::nat}.
           row_cells quoted_supplier ! i
             = [dquote] @ text_of (cell_values quoted_supplier ! i) @ [dquote]
           \<and> (row_cells quoted_supplier ! i
                  = csv_quote (text_of (cell_values quoted_supplier ! i)))
               = (dquote \<notin> set (text_of (cell_values quoted_supplier ! i)))"
    using row by blast
  have m1: "(1::nat) \<in> {1, 2, 4, 5, 6, 7, 8, 9}" and m5: "(5::nat) \<in> {1, 2, 4, 5, 6, 7, 8, 9}"
    and m9: "(9::nat) \<in> {1, 2, 4, 5, 6, 7, 8, 9}"
    by simp_all
  have c1: "row_cells quoted_supplier ! 1 = [dquote] @ ''success'' @ [dquote]"
    using rest [THEN bspec, OF m1, THEN conjunct1] unfolding t1 .
  have "dquote \<notin> set (text_of (cell_values quoted_supplier ! 5))"
    unfolding t5 by simp
  with rest [THEN bspec, OF m5, THEN conjunct2]
  have c5: "row_cells quoted_supplier ! 5 = csv_quote []"
    unfolding t5 by simp
  have c9: "row_cells quoted_supplier ! 9 = [dquote] @ ''A'' @ [dquote] @ ''B'' @ [dquote]"
    using rest [THEN bspec, OF m9, THEN conjunct1] unfolding t9 by simp
  from h1 h3 e len c1 c5 c9 show ?thesis by (intro conjI)
qed

text \<open>
  C1 as stated fails for a result whose supplier name is \<open>A\<close>, a quote character,
  \<open>B\<close>: the cell keeps the single quote character, where the quoting discipline doubles
  it. In the same row the cell of Control Unit Invoice Number, \<open>a,b\<close> after an
  apostrophe, has no quote characters around it; the line that \<open>exportCSV\<close> writes
  for the result so has eleven fields between its commas.
\<close>

theorem csv_escaping_counterexample:
  "csv_row quoted_supplier =
     Inr [[dquote, apostrophe] @ ''INV1'' @ [dquote],
          [dquote] @ ''success'' @ [dquote],
          [dquote, dquote],
          [apostrophe] @ ''a,b'',
          [dquote, dquote], [dquote, dquote], [dquote, dquote], [dquote, dquote],
          [dquote, dquote],
          [dquote] @ ''A'' @ [dquote] @ ''B'' @ [dquote]]
   \<and> csv_quote (''A'' @ [dquote] @ ''B'') = [dquote] @ ''A'' @ [dquote, dquote] @ ''B'' @ [dquote]
   \<and> [dquote] @ ''A'' @ [dquote] @ ''B'' @ [dquote] \<noteq> csv_quote (''A'' @ [dquote] @ ''B'')
   \<and> [apostrophe] @ ''a,b'' \<noteq> csv_quote ''a,b''
   \<and> content (last (downloads (snd (exportCSV sample_stamp exported_page))))
       = join '','' columns @ [newline]
         @ [dquote, apostrophe] @ ''INV1'' @ [dquote] @ '','' @ [dquote] @ ''success'' @ [dquote]
         @ '','' @ [dquote, dquote] @ '','' @ [apostrophe] @ ''a,b'' @ '','' @ [dquote, dquote]
         @ '','' @ [dquote, dquote] @ '','' @ [dquote, dquote] @ '','' @ [dquote, dquote]
         @ '','' @ [dquote, dquote] @ '','' @ [dquote] @ ''A'' @ [dquote] @ ''B'' @ [dquote]
         @ [newline]
   \<and> length (split_on comma
         ([dquote, apostrophe] @ ''INV1'' @ [dquote] @ '','' @ [dquote] @ ''success'' @ [dquote]
         @ '','' @ [dquote, dquote] @ '','' @ [apostrophe] @ ''a,b'' @ '','' @ [dquote, dquote]
         @ '','' @ [dquote, dquote] @ '','' @ [dquote, dquote] @ '','' @ [dquote, dquote]
         @ '','' @ [dquote, dquote] @ '','' @ [dquote] @ ''A'' @ [dquote] @ ''B'' @ [dquote]))
       = 11"
proof -
  have row: "csv_row quoted_supplier =
     Inr [[dquote, apostrophe] @ ''INV1'' @ [dquote],
          [dquote] @ ''success'' @ [dquote],
          [dquote, dquote],
          [apostrophe] @ ''a,b'',
          [dquote, dquote], [dquote, dquote], [dquote, dquote], [dquote, dquote],
          [dquote, dquote],
          [dquote] @ ''A'' @ [dquote] @ ''B'' @ [dquote]]"
    by (simp add: csv_row_def cell_def quoted_supplier_def get_prop_def own_prop_def interp_def
          or_else_def data_field_def)
  have q: "csv_quote (''A'' @ [dquote] @ ''B'')
           = [dquote] @ ''A'' @ [dquote, dquote] @ ''B'' @ [dquote]"
    "[dquote] @ ''A'' @ [dquote] @ ''B'' @ [dquote] \<noteq> csv_quote (''A'' @ [dquote] @ ''B'')"
    "[apostrophe] @ ''a,b'' \<noteq> csv_quote ''a,b''"
    by (simp_all add: csv_quote_def dquote_def apostrophe_def)
  have written: "content (last (downloads (snd (exportCSV sample_stamp exported_page))))
       = join '','' columns @ [newline]
         @ [dquote, apostrophe] @ ''INV1'' @ [dquote] @ '','' @ [dquote] @ ''success'' @ [dquote]
         @ '','' @ [dquote, dquote] @ '','' @ [apostrophe] @ ''a,b'' @ '','' @ [dquote, dquote]
         @ '','' @ [dquote, dquote] @ '','' @ [dquote, dquote] @ '','' @ [dquote, dquote]
         @ '','' @ [dquote, dquote] @ '','' @ [dquote] @ ''A'' @ [dquote] @ ''B'' @ [dquote]
         @ [newline]"
    by code_simp
  have n: "length (split_on comma
         ([dquote, apostrophe] @ ''INV1'' @ [dquote] @ '','' @ [dquote] @ ''success'' @ [dquote]
         @ '','' @ [dquote, dquote] @ '','' @ [apostrophe] @ ''a,b'' @ '','' @ [dquote, dquote]
         @ '','' @ [dquote, dquote] @ '','' @ [dquote, dquote] @ '','' @ [dquote, dquote]
         @ '','' @ [dquote, dquote] @ '','' @ [dquote] @ ''A'' @ [dquote] @ ''B'' @ [dquote]))
       = 11"
    by (simp add: comma_def dquote_def apostrophe_def)
  from row q written n show ?thesis by (intro conjI)
qed






end
